theory Spec2Isabelle
  imports Main
begin

section \<open>The credential vault of mcp-mail-manager\<close>

text \<open>
  A shallow embedding of \<^verbatim>\<open>src/lib/crypto.ts\<close>, \<^verbatim>\<open>src/lib/accounts.ts\<close> and the
  account-building part of \<^verbatim>\<open>src/tools/add-account.ts\<close>.

  The process environment, the two files under \<^verbatim>\<open>~/.mcp-mail-manager\<close>, the random
  source and the console are the fields of one record, \<open>world\<close>, which every
  effectful function takes and returns. A JavaScript exception is the \<open>Inl\<close> branch of
  a sum. The primitives of Node's \<^verbatim>\<open>crypto\<close> module and of \<^verbatim>\<open>Buffer\<close> (scrypt,
  AES-256-GCM, base64) are not code of this repository: they are the fields of a
  parameter \<open>L\<close>, and a theorem that needs a property of them says so.

  Strings are lists of 8-bit characters. File writes are taken to succeed; a read of a
  file that exists can fail (\<open>Unreadable\<close>).
\<close>

subsection \<open>JavaScript string helpers\<close>

text \<open>\<^verbatim>\<open>s.startsWith(p)\<close>.\<close>

definition startsWith :: "string \<Rightarrow> string \<Rightarrow> bool" where
  "startsWith s p = (take (length p) s = p)"

text \<open>\<^verbatim>\<open>s.split(d)\<close> for a separator of one character: never the empty list.\<close>

fun split_str :: "char \<Rightarrow> string \<Rightarrow> string list" where
  "split_str d [] = [[]]"
| "split_str d (c # cs) =
     (if c = d then [] # split_str d cs
      else (case split_str d cs of [] \<Rightarrow> [[c]] | p # ps \<Rightarrow> (c # p) # ps))"

text \<open>
  \<^verbatim>\<open>s.trim()\<close>: the white space of ECMAScript that fits in 8 bits (TAB, LF, VT, FF, CR,
  SPACE, NBSP).
\<close>

definition is_ws :: "char \<Rightarrow> bool" where
  "is_ws c = (c \<in> set [CHR 0x09, CHR 0x0A, CHR 0x0B, CHR 0x0C, CHR 0x0D, CHR 0x20, CHR 0xA0])"

definition trim :: "string \<Rightarrow> string" where
  "trim s = rev (dropWhile is_ws (rev (dropWhile is_ws s)))"

subsection \<open>The world\<close>

datatype error =
    FsReadError                    \<comment> \<open>\<^verbatim>\<open>readFileSync\<close> throws (EACCES, ...)\<close>
  | InvalidLocalEncryptedFormat    \<comment> \<open>\<^verbatim>\<open>throw new Error("Invalid local encrypted format")\<close>\<close>
  | UnknownEncryptionFormat        \<comment> \<open>\<^verbatim>\<open>throw new Error("Unknown encryption format")\<close>\<close>
  | CryptoError                    \<comment> \<open>\<^verbatim>\<open>createDecipheriv\<close>, \<^verbatim>\<open>setAuthTag\<close> or \<^verbatim>\<open>final\<close> throws\<close>

datatype 'a fs_file = Absent | Unreadable | Readable 'a

text \<open>\<^verbatim>\<open>existsSync(path)\<close> and \<^verbatim>\<open>readFileSync(path, "utf-8")\<close>.\<close>

fun existsSync :: "'a fs_file \<Rightarrow> bool" where
  "existsSync Absent = False"
| "existsSync Unreadable = True"
| "existsSync (Readable x) = True"

fun readFileSync :: "'a fs_file \<Rightarrow> error + 'a" where
  "readFileSync (Readable x) = Inr x"
| "readFileSync Unreadable = Inl FsReadError"
| "readFileSync Absent = Inl FsReadError"

text \<open>
  The state outside the process. \<open>entropy\<close> is the operating system's random stream and
  \<open>entropy_pos\<close> how much of it has been drawn; \<open>console\<close> collects the lines written by
  \<^verbatim>\<open>console.error\<close>, oldest first.
\<close>

datatype provider =
  Gmail | Outlook | Yahoo | ICloud | ProtonMail | FastMail | Zoho | Aol | Gmx | MailRu
  | Yandex | Custom

datatype auth_type = PasswordAuth | OAuth2 | XOAuth2

record imap_cfg =
  imap_host :: string
  imap_port :: int
  imap_tls :: bool

record smtp_cfg =
  smtp_host :: string
  smtp_port :: int
  smtp_secure :: bool

record auth_cfg =
  auth_type :: auth_type
  user :: string
  password :: "string option"
  accessToken :: "string option"
  refreshToken :: "string option"
  clientId :: "string option"
  clientSecret :: "string option"
  tokenExpiry :: "int option"

record sync_cfg =
  folders :: "string list option"
  maxAge :: "int option"

text \<open>
  \<^verbatim>\<open>interface EmailAccount\<close>. The field \<^verbatim>\<open>id\<close> is \<open>acct_id\<close> here. An optional key
  is an \<open>option\<close>, \<open>None\<close> when the object has no such key. \<^verbatim>\<open>imap\<close> and \<^verbatim>\<open>smtp\<close> are
  optional too: \<^verbatim>\<open>addAccount\<close> is called with \<^verbatim>\<open>account as any\<close> and merges a preset
  under the object it is given, which only shows on a key the object lacks.
\<close>

record account =
  acct_id :: string
  email :: string
  name :: "string option"
  provider :: provider
  enabled :: bool
  imap :: "imap_cfg option"
  smtp :: "smtp_cfg option"
  auth :: auth_cfg
  sync :: "sync_cfg option"

text \<open>
  What \<^verbatim>\<open>JSON.parse(readFileSync(ACCOUNTS_FILE, "utf-8"))\<close> sees in a readable file:
  text that does not parse, or the array of accounts that \<^verbatim>\<open>JSON.stringify\<close> wrote.
\<close>

datatype json_doc = Unparseable | Accounts "account list"

record world =
  env_MCP_MASTER_KEY :: "string option"
  config_dir :: bool
  key_file :: "string fs_file"
  key_file_mode :: nat
  accounts_file :: "json_doc fs_file"
  entropy :: "nat \<Rightarrow> char"
  entropy_pos :: nat
  console :: "string list"

definition console_error :: "string \<Rightarrow> world \<Rightarrow> world" where
  "console_error line w = w\<lparr>console := console w @ [line]\<rparr>"

text \<open>\<^verbatim>\<open>randomBytes(n)\<close>: the next \<open>n\<close> bytes of the stream.\<close>

definition randomBytes :: "nat \<Rightarrow> world \<Rightarrow> string \<times> world" where
  "randomBytes n w =
     (map (entropy w) [entropy_pos w ..< entropy_pos w + n],
      w\<lparr>entropy_pos := entropy_pos w + n\<rparr>)"

text \<open>\<^verbatim>\<open>ensureConfigDir()\<close>, the same function in both modules.\<close>

definition ensureConfigDir :: "world \<Rightarrow> world" where
  "ensureConfigDir w = (if \<not> config_dir w then w\<lparr>config_dir := True\<rparr> else w)"

subsection \<open>crypto.ts\<close>

text \<open>
  The library primitives, for a key type \<open>'k\<close> (a \<^verbatim>\<open>Buffer\<close> of key material):
  \<^item> \<open>scryptSync secret salt keylen\<close>;
  \<^item> \<open>cipher key iv plaintext\<close>: \<^verbatim>\<open>createCipheriv\<close>, \<^verbatim>\<open>update(plaintext, "utf8", "base64")\<close>
    followed by \<^verbatim>\<open>final("base64")\<close>, and \<^verbatim>\<open>getAuthTag()\<close>: the base64 ciphertext and
    the tag;
  \<^item> \<open>decipher key iv authTag ciphertext\<close>: \<^verbatim>\<open>createDecipheriv\<close>, \<^verbatim>\<open>setAuthTag\<close>,
    \<^verbatim>\<open>update(ciphertext, "base64", "utf8")\<close> followed by \<^verbatim>\<open>final("utf8")\<close>; \<open>None\<close> when
    one of them throws;
  \<^item> \<open>toBase64\<close> and \<open>fromBase64\<close>: \<^verbatim>\<open>buf.toString("base64")\<close> and
    \<^verbatim>\<open>Buffer.from(s, "base64")\<close>.
\<close>

record 'k crypto_lib =
  scryptSync :: "string \<Rightarrow> string \<Rightarrow> nat \<Rightarrow> 'k"
  cipher :: "'k \<Rightarrow> string \<Rightarrow> string \<Rightarrow> string \<times> string"
  decipher :: "'k \<Rightarrow> string \<Rightarrow> string \<Rightarrow> string \<Rightarrow> string option"
  toBase64 :: "string \<Rightarrow> string"
  fromBase64 :: "string \<Rightarrow> string"

definition KEY_LENGTH :: nat where "KEY_LENGTH = 32"
definition IV_LENGTH :: nat where "IV_LENGTH = 16"
definition KEY_FILE :: string where "KEY_FILE = ''~/.mcp-mail-manager/.master-key''"
definition PREFIX_LOCAL :: string where "PREFIX_LOCAL = ''enc:local:''"
definition SALT :: string where "SALT = ''mcp-mail-manager-salt-v1''"

text \<open>
  The value of \<^verbatim>\<open>process.env.MCP_MASTER_KEY\<close>; an unset variable and the empty string
  are both falsy, and both are the empty string here.
\<close>

definition env_value :: "string option \<Rightarrow> string" where
  "env_value v = (case v of None \<Rightarrow> [] | Some s \<Rightarrow> s)"

text \<open>\<^verbatim>\<open>getLocalMasterKey()\<close>. The mode \<^verbatim>\<open>0o600\<close> is 384.\<close>

definition getLocalMasterKey :: "'k crypto_lib \<Rightarrow> world \<Rightarrow> (error + 'k) \<times> world" where
  "getLocalMasterKey L w =
     (if env_value (env_MCP_MASTER_KEY w) \<noteq> [] then
        (Inr (scryptSync L (env_value (env_MCP_MASTER_KEY w)) SALT KEY_LENGTH), w)
      else if existsSync (key_file w) then
        (case readFileSync (key_file w) of
           Inl e \<Rightarrow> (Inl e, w)
         | Inr contents \<Rightarrow> (Inr (scryptSync L (trim contents) SALT KEY_LENGTH), w))
      else
        (let w1 = console_error ''[crypto] Generating new local master key...'' w;
             (bytes, w2) = randomBytes 32 w1;
             newKey = toBase64 L bytes;
             w3 = ensureConfigDir w2;
             w4 = w3\<lparr>key_file := Readable newKey, key_file_mode := 384\<rparr>;
             w5 = console_error (''[crypto] Master key saved to '' @ KEY_FILE) w4
         in (Inr (scryptSync L newKey SALT KEY_LENGTH), w5)))"

text \<open>\<^verbatim>\<open>encryptLocal(plaintext)\<close>.\<close>

definition encryptLocal :: "'k crypto_lib \<Rightarrow> world \<Rightarrow> string \<Rightarrow> (error + string) \<times> world" where
  "encryptLocal L w plaintext =
     (case getLocalMasterKey L w of
        (Inl e, w1) \<Rightarrow> (Inl e, w1)
      | (Inr key, w1) \<Rightarrow>
          (let (iv, w2) = randomBytes IV_LENGTH w1;
               (encrypted, authTag) = cipher L key iv plaintext
           in (Inr (PREFIX_LOCAL @ toBase64 L iv @ '':'' @ toBase64 L authTag @ '':'' @ encrypted),
               w2)))"

text \<open>\<^verbatim>\<open>decryptLocal(encrypted)\<close>.\<close>

definition decryptLocal :: "'k crypto_lib \<Rightarrow> world \<Rightarrow> string \<Rightarrow> (error + string) \<times> world" where
  "decryptLocal L w encrypted =
     (case getLocalMasterKey L w of
        (Inl e, w1) \<Rightarrow> (Inl e, w1)
      | (Inr key, w1) \<Rightarrow>
          (let parts = split_str CHR '':'' (drop (length PREFIX_LOCAL) encrypted) in
           if length parts \<noteq> 3 then (Inl InvalidLocalEncryptedFormat, w1)
           else
             (let iv = fromBase64 L (parts ! 0);
                  authTag = fromBase64 L (parts ! 1);
                  ciphertext = parts ! 2
              in case decipher L key iv authTag ciphertext of
                   None \<Rightarrow> (Inl CryptoError, w1)
                 | Some decrypted \<Rightarrow> (Inr decrypted, w1))))"

text \<open>\<^verbatim>\<open>isEncrypted(value)\<close>, \<^verbatim>\<open>encrypt(plaintext)\<close> and \<^verbatim>\<open>decrypt(encrypted)\<close>.\<close>

definition isEncrypted :: "string \<Rightarrow> bool" where
  "isEncrypted v = startsWith v PREFIX_LOCAL"

definition encrypt :: "'k crypto_lib \<Rightarrow> world \<Rightarrow> string \<Rightarrow> (error + string) \<times> world" where
  "encrypt L w plaintext =
     (if plaintext = [] \<or> isEncrypted plaintext then (Inr plaintext, w)
      else encryptLocal L w plaintext)"

definition decrypt :: "'k crypto_lib \<Rightarrow> world \<Rightarrow> string \<Rightarrow> (error + string) \<times> world" where
  "decrypt L w encrypted =
     (if encrypted = [] \<or> \<not> isEncrypted encrypted then (Inr encrypted, w)
      else if startsWith encrypted PREFIX_LOCAL then decryptLocal L w encrypted
      else (Inl UnknownEncryptionFormat, w))"

subsection \<open>accounts.ts\<close>

text \<open>\<^verbatim>\<open>SENSITIVE_AUTH_FIELDS\<close>: the keys, and reading and writing \<^verbatim>\<open>auth[field]\<close>.\<close>

datatype auth_key = K_password | K_accessToken | K_refreshToken | K_clientSecret

definition SENSITIVE_AUTH_FIELDS :: "auth_key list" where
  "SENSITIVE_AUTH_FIELDS = [K_password, K_accessToken, K_refreshToken, K_clientSecret]"

fun key_name :: "auth_key \<Rightarrow> string" where
  "key_name K_password = ''password''"
| "key_name K_accessToken = ''accessToken''"
| "key_name K_refreshToken = ''refreshToken''"
| "key_name K_clientSecret = ''clientSecret''"

fun get_field :: "auth_key \<Rightarrow> auth_cfg \<Rightarrow> string option" where
  "get_field K_password au = password au"
| "get_field K_accessToken au = accessToken au"
| "get_field K_refreshToken au = refreshToken au"
| "get_field K_clientSecret au = clientSecret au"

fun set_field :: "auth_key \<Rightarrow> string \<Rightarrow> auth_cfg \<Rightarrow> auth_cfg" where
  "set_field K_password v au = au\<lparr>password := Some v\<rparr>"
| "set_field K_accessToken v au = au\<lparr>accessToken := Some v\<rparr>"
| "set_field K_refreshToken v au = au\<lparr>refreshToken := Some v\<rparr>"
| "set_field K_clientSecret v au = au\<lparr>clientSecret := Some v\<rparr>"

text \<open>\<^verbatim>\<open>PROVIDER_PRESETS\<close>: the three keys every preset has.\<close>

record preset =
  preset_provider :: provider
  preset_imap :: imap_cfg
  preset_smtp :: smtp_cfg

definition mk_preset :: "provider \<Rightarrow> string \<Rightarrow> int \<Rightarrow> bool \<Rightarrow> string \<Rightarrow> preset" where
  "mk_preset p ih ip it sh =
     \<lparr>preset_provider = p,
      preset_imap = \<lparr>imap_host = ih, imap_port = ip, imap_tls = it\<rparr>,
      preset_smtp = \<lparr>smtp_host = sh, smtp_port = 587, smtp_secure = False\<rparr>\<rparr>"

fun PROVIDER_PRESETS :: "provider \<Rightarrow> preset" where
  "PROVIDER_PRESETS Gmail = mk_preset Gmail ''imap.gmail.com'' 993 True ''smtp.gmail.com''"
| "PROVIDER_PRESETS Outlook =
     mk_preset Outlook ''outlook.office365.com'' 993 True ''smtp.office365.com''"
| "PROVIDER_PRESETS Yahoo =
     mk_preset Yahoo ''imap.mail.yahoo.com'' 993 True ''smtp.mail.yahoo.com''"
| "PROVIDER_PRESETS ICloud = mk_preset ICloud ''imap.mail.me.com'' 993 True ''smtp.mail.me.com''"
| "PROVIDER_PRESETS ProtonMail =
     \<lparr>preset_provider = ProtonMail,
      preset_imap = \<lparr>imap_host = ''127.0.0.1'', imap_port = 1143, imap_tls = False\<rparr>,
      preset_smtp = \<lparr>smtp_host = ''127.0.0.1'', smtp_port = 1025, smtp_secure = False\<rparr>\<rparr>"
| "PROVIDER_PRESETS FastMail =
     mk_preset FastMail ''imap.fastmail.com'' 993 True ''smtp.fastmail.com''"
| "PROVIDER_PRESETS Zoho = mk_preset Zoho ''imap.zoho.com'' 993 True ''smtp.zoho.com''"
| "PROVIDER_PRESETS Aol = mk_preset Aol ''imap.aol.com'' 993 True ''smtp.aol.com''"
| "PROVIDER_PRESETS Gmx = mk_preset Gmx ''imap.gmx.com'' 993 True ''mail.gmx.com''"
| "PROVIDER_PRESETS MailRu = mk_preset MailRu ''imap.mail.ru'' 993 True ''smtp.mail.ru''"
| "PROVIDER_PRESETS Yandex = mk_preset Yandex ''imap.yandex.com'' 993 True ''smtp.yandex.com''"
| "PROVIDER_PRESETS Custom = mk_preset Custom [] 993 True []"

text \<open>
  \<^verbatim>\<open>s.toLowerCase()\<close> on the letters A to Z. Its callers compare the result with ASCII
  names or apply it to ASCII text.
\<close>

definition toLowerCase :: "string \<Rightarrow> string" where
  "toLowerCase s =
     map (\<lambda>c. case map_of (zip ''ABCDEFGHIJKLMNOPQRSTUVWXYZ'' ''abcdefghijklmnopqrstuvwxyz'') c of
                Some l \<Rightarrow> l | None \<Rightarrow> c) s"

text \<open>
  \<^verbatim>\<open>detectProvider(email)\<close>. \<^verbatim>\<open>domainMap[domain]\<close> is the lookup among the keys written
  in the table. (For a domain that names a property every JavaScript object inherits,
  such as \<^verbatim>\<open>constructor\<close>, the source returns that property, which is no provider; the type
  \<open>provider\<close> has no such value, and the function returns \<open>Custom\<close> there.)
\<close>

definition domainMap :: "(string \<times> provider) list" where
  "domainMap =
     [(''gmail.com'', Gmail), (''googlemail.com'', Gmail),
      (''outlook.com'', Outlook), (''hotmail.com'', Outlook), (''live.com'', Outlook),
      (''msn.com'', Outlook),
      (''yahoo.com'', Yahoo), (''yahoo.fr'', Yahoo), (''yahoo.co.uk'', Yahoo),
      (''ymail.com'', Yahoo),
      (''icloud.com'', ICloud), (''me.com'', ICloud), (''mac.com'', ICloud),
      (''protonmail.com'', ProtonMail), (''proton.me'', ProtonMail), (''pm.me'', ProtonMail),
      (''fastmail.com'', FastMail), (''fastmail.fm'', FastMail),
      (''zoho.com'', Zoho), (''aol.com'', Aol),
      (''gmx.com'', Gmx), (''gmx.fr'', Gmx), (''gmx.de'', Gmx),
      (''mail.ru'', MailRu), (''yandex.ru'', Yandex), (''yandex.com'', Yandex)]"

definition detectProvider :: "string \<Rightarrow> provider" where
  "detectProvider em =
     (let parts = split_str CHR ''@'' em in
      if length parts < 2 then Custom
      else (let domain = toLowerCase (parts ! 1) in
            if domain = [] then Custom
            else (case map_of domainMap domain of Some p \<Rightarrow> p | None \<Rightarrow> Custom)))"

text \<open>
  \<^verbatim>\<open>decryptAccount(account)\<close>: the loop over \<^verbatim>\<open>SENSITIVE_AUTH_FIELDS\<close>, then the
  function. The \<^verbatim>\<open>catch\<close> writes a line and leaves \<^verbatim>\<open>decryptedAuth[field]\<close> as it was.
\<close>

fun decryptAccount_loop ::
  "'k crypto_lib \<Rightarrow> string \<Rightarrow> auth_key list \<Rightarrow> auth_cfg \<Rightarrow> world \<Rightarrow> auth_cfg \<times> world" where
  "decryptAccount_loop L em [] decryptedAuth w = (decryptedAuth, w)"
| "decryptAccount_loop L em (field # rest) decryptedAuth w =
     (case get_field field decryptedAuth of
        None \<Rightarrow> decryptAccount_loop L em rest decryptedAuth w
      | Some v \<Rightarrow>
          if v \<noteq> [] \<and> isEncrypted v then
            (case decrypt L w v of
               (Inr d, w1) \<Rightarrow> decryptAccount_loop L em rest (set_field field d decryptedAuth) w1
             | (Inl err, w1) \<Rightarrow>
                 decryptAccount_loop L em rest decryptedAuth
                   (console_error
                      (''[accounts] Failed to decrypt '' @ key_name field @ '' for '' @ em) w1))
          else decryptAccount_loop L em rest decryptedAuth w)"

definition decryptAccount :: "'k crypto_lib \<Rightarrow> world \<Rightarrow> account \<Rightarrow> account \<times> world" where
  "decryptAccount L w a =
     (case decryptAccount_loop L (email a) SENSITIVE_AUTH_FIELDS (auth a) w of
        (decryptedAuth, w1) \<Rightarrow> (a\<lparr>auth := decryptedAuth\<rparr>, w1))"

text \<open>
  \<^verbatim>\<open>encryptAccount(account)\<close>. An exception of \<^verbatim>\<open>encrypt\<close> is not caught: it ends the
  loop and the function.
\<close>

fun encryptAccount_loop ::
  "'k crypto_lib \<Rightarrow> auth_key list \<Rightarrow> auth_cfg \<Rightarrow> world \<Rightarrow> (error + auth_cfg) \<times> world" where
  "encryptAccount_loop L [] encryptedAuth w = (Inr encryptedAuth, w)"
| "encryptAccount_loop L (field # rest) encryptedAuth w =
     (case get_field field encryptedAuth of
        None \<Rightarrow> encryptAccount_loop L rest encryptedAuth w
      | Some v \<Rightarrow>
          if v \<noteq> [] \<and> \<not> isEncrypted v then
            (case encrypt L w v of
               (Inr c, w1) \<Rightarrow> encryptAccount_loop L rest (set_field field c encryptedAuth) w1
             | (Inl err, w1) \<Rightarrow> (Inl err, w1))
          else encryptAccount_loop L rest encryptedAuth w)"

definition encryptAccount :: "'k crypto_lib \<Rightarrow> world \<Rightarrow> account \<Rightarrow> (error + account) \<times> world" where
  "encryptAccount L w a =
     (case encryptAccount_loop L SENSITIVE_AUTH_FIELDS (auth a) w of
        (Inr encryptedAuth, w1) \<Rightarrow> (Inr (a\<lparr>auth := encryptedAuth\<rparr>), w1)
      | (Inl err, w1) \<Rightarrow> (Inl err, w1))"

text \<open>
  \<^verbatim>\<open>getAccounts()\<close>. \<open>decryptAll\<close> is \<^verbatim>\<open>Promise.all(accounts.map(decryptAccount))\<close>, one
  account after the other. (At run time the decryptions of different accounts
  interleave at each \<^verbatim>\<open>await\<close>; the records returned are the same, the order of the
  console lines may differ.) No call of it can throw for accounts of the declared
  type, so the result has no error branch.
\<close>

fun decryptAll :: "'k crypto_lib \<Rightarrow> world \<Rightarrow> account list \<Rightarrow> account list \<times> world" where
  "decryptAll L w [] = ([], w)"
| "decryptAll L w (a # as) =
     (case decryptAccount L w a of
        (a', w1) \<Rightarrow> (case decryptAll L w1 as of (as', w2) \<Rightarrow> (a' # as', w2)))"

definition getAccounts :: "'k crypto_lib \<Rightarrow> world \<Rightarrow> account list \<times> world" where
  "getAccounts L w =
     (let w1 = ensureConfigDir w in
      if \<not> existsSync (accounts_file w1) then ([], w1)
      else (case readFileSync (accounts_file w1) of
              Inl e \<Rightarrow> ([], w1)
            | Inr Unparseable \<Rightarrow> ([], w1)
            | Inr (Accounts accounts) \<Rightarrow> decryptAll L w1 accounts))"

text \<open>\<^verbatim>\<open>getAccount(id)\<close>.\<close>

definition getAccount :: "'k crypto_lib \<Rightarrow> world \<Rightarrow> string \<Rightarrow> account option \<times> world" where
  "getAccount L w i =
     (case getAccounts L w of (accounts, w1) \<Rightarrow> (find (\<lambda>a. acct_id a = i) accounts, w1))"

text \<open>\<^verbatim>\<open>xs.findIndex(p)\<close>, \<open>None\<close> for \<^verbatim>\<open>-1\<close>.\<close>

fun findIndex :: "('a \<Rightarrow> bool) \<Rightarrow> 'a list \<Rightarrow> nat option" where
  "findIndex p [] = None"
| "findIndex p (x # xs) = (if p x then Some 0 else map_option Suc (findIndex p xs))"

text \<open>
  \<^verbatim>\<open>{ ...preset, ...account }\<close>: a key of \<^verbatim>\<open>account\<close> wins, whole. \<^verbatim>\<open>provider\<close> is always
  a key of \<^verbatim>\<open>account\<close> here, and every provider has a preset, so the guard
  \<^verbatim>\<open>account.provider && PROVIDER_PRESETS[account.provider]\<close> holds.
\<close>

definition applyPreset :: "account \<Rightarrow> account" where
  "applyPreset a =
     (let p = PROVIDER_PRESETS (provider a) in
      a\<lparr>imap := (case imap a of Some i \<Rightarrow> Some i | None \<Rightarrow> Some (preset_imap p)),
        smtp := (case smtp a of Some s \<Rightarrow> Some s | None \<Rightarrow> Some (preset_smtp p))\<rparr>)"

text \<open>\<^verbatim>\<open>addAccount(account)\<close>.\<close>

definition addAccount :: "'k crypto_lib \<Rightarrow> world \<Rightarrow> account \<Rightarrow> (error + unit) \<times> world" where
  "addAccount L w a =
     (let w1 = ensureConfigDir w;
          rawAccounts =
            (if existsSync (accounts_file w1) then
               (case readFileSync (accounts_file w1) of
                  Inr (Accounts accounts) \<Rightarrow> accounts
                | Inr Unparseable \<Rightarrow> []
                | Inl e \<Rightarrow> [])
             else []);
          a1 = applyPreset a
      in case encryptAccount L w1 a1 of
           (Inl err, w2) \<Rightarrow> (Inl err, w2)
         | (Inr encryptedAccount, w2) \<Rightarrow>
             (let written =
                    (case findIndex (\<lambda>x. acct_id x = acct_id a1) rawAccounts of
                       Some existingIndex \<Rightarrow> rawAccounts[existingIndex := encryptedAccount]
                     | None \<Rightarrow> rawAccounts @ [encryptedAccount]);
                  w3 = w2\<lparr>accounts_file := Readable (Accounts written)\<rparr>
              in (Inr (),
                  console_error
                    (''[accounts] Saved account '' @ email a1 @ '' (credentials encrypted)'') w3)))"

text \<open>\<^verbatim>\<open>removeAccount(id)\<close>.\<close>

definition removeAccount :: "world \<Rightarrow> string \<Rightarrow> bool \<times> world" where
  "removeAccount w i =
     (if \<not> existsSync (accounts_file w) then (False, w)
      else (case readFileSync (accounts_file w) of
              Inl e \<Rightarrow> (False, w)
            | Inr Unparseable \<Rightarrow> (False, w)
            | Inr (Accounts rawAccounts) \<Rightarrow>
                (let filtered = filter (\<lambda>a. acct_id a \<noteq> i) rawAccounts in
                 if length filtered = length rawAccounts then (False, w)
                 else (True,
                       console_error (''[accounts] Removed account '' @ i)
                         (w\<lparr>accounts_file := Readable (Accounts filtered)\<rparr>)))))"

subsection \<open>tools/add-account.ts\<close>

record add_args =
  arg_email :: string
  arg_password :: string
  arg_name :: "string option"
  arg_provider :: "provider option"
  arg_imap_host :: "string option"
  arg_imap_port :: "int option"
  arg_smtp_host :: "string option"
  arg_smtp_port :: "int option"
  arg_test_connection :: "bool option"

text \<open>\<^verbatim>\<open>x || d\<close> for an optional string and for an optional number.\<close>

definition or_str :: "string option \<Rightarrow> string \<Rightarrow> string" where
  "or_str x d = (case x of Some s \<Rightarrow> if s \<noteq> [] then s else d | None \<Rightarrow> d)"

definition or_num :: "int option \<Rightarrow> int \<Rightarrow> int" where
  "or_num x d = (case x of Some n \<Rightarrow> if n \<noteq> 0 then n else d | None \<Rightarrow> d)"

definition is_alnum :: "char \<Rightarrow> bool" where
  "is_alnum c =
     (c \<in> set ''abcdefghijklmnopqrstuvwxyzABCDEFGHIJKLMNOPQRSTUVWXYZ0123456789'')"

text \<open>
  The object \<^verbatim>\<open>account\<close> that \<^verbatim>\<open>execute(args)\<close> builds and passes to \<^verbatim>\<open>addAccount\<close>:
  \<^verbatim>\<open>imap\<close> and \<^verbatim>\<open>smtp\<close> are always keys of it, with the host \<^verbatim>\<open>""\<close> when the caller
  gave none. What \<^verbatim>\<open>execute\<close> does after \<^verbatim>\<open>addAccount\<close> has returned (the connection test
  and the result it reports) is not part of this model.
\<close>

definition build_account :: "add_args \<Rightarrow> account" where
  "build_account args =
     (let em = arg_email args in
      \<lparr>acct_id = toLowerCase (map (\<lambda>c. if is_alnum c then c else CHR ''-'') em),
       email = em,
       name = Some (or_str (arg_name args) (split_str CHR ''@'' em ! 0)),
       provider = (case arg_provider args of Some p \<Rightarrow> p | None \<Rightarrow> detectProvider em),
       enabled = True,
       imap = Some \<lparr>imap_host = or_str (arg_imap_host args) [],
                     imap_port = or_num (arg_imap_port args) 993, imap_tls = True\<rparr>,
       smtp = Some \<lparr>smtp_host = or_str (arg_smtp_host args) [],
                     smtp_port = or_num (arg_smtp_port args) 587, smtp_secure = False\<rparr>,
       auth = \<lparr>auth_type = PasswordAuth, user = em, password = Some (arg_password args),
               accessToken = None, refreshToken = None, clientId = None,
               clientSecret = None, tokenExpiry = None\<rparr>,
       sync = None\<rparr>)"

subsection \<open>An instance of the library primitives\<close>

text \<open>
  A small instance of \<open>crypto_lib\<close> on which the model can be evaluated. It protects
  nothing. The derived key is the triple of the arguments of \<open>scryptSync\<close>, base64 is an
  escaping that keeps \<open>:\<close> out of its output, the ciphertext is the escaped plaintext and
  the tag depends on the secret, the nonce and the plaintext.
\<close>

fun toy_escape :: "string \<Rightarrow> string" where
  "toy_escape [] = []"
| "toy_escape (c # cs) =
     (if c = CHR '':'' then CHR ''='' # CHR ''c'' # toy_escape cs
      else if c = CHR ''='' then CHR ''='' # CHR ''='' # toy_escape cs
      else c # toy_escape cs)"

fun toy_unescape :: "string \<Rightarrow> string" where
  "toy_unescape (a # b # cs) =
     (if a = CHR ''='' then (if b = CHR ''c'' then CHR '':'' else b) # toy_unescape cs
      else a # toy_unescape (b # cs))"
| "toy_unescape cs = cs"

definition toy_tag :: "string \<times> string \<times> nat \<Rightarrow> string \<Rightarrow> string \<Rightarrow> string" where
  "toy_tag k iv s = take 16 (rev (fst k) @ s @ iv)"

definition toy_lib :: "(string \<times> string \<times> nat) crypto_lib" where
  "toy_lib =
     \<lparr>scryptSync = (\<lambda>secret salt n. (secret, salt, n)),
      cipher = (\<lambda>k iv s. (toy_escape s, toy_tag k iv s)),
      decipher = (\<lambda>k iv tag ct.
         if tag = toy_tag k iv (toy_unescape ct) then Some (toy_unescape ct) else None),
      toBase64 = toy_escape,
      fromBase64 = toy_unescape\<rparr>"

text \<open>
  What the round trip needs of the primitives: base64 decodes what it encoded and has no
  \<open>:\<close> in its output, the cipher's base64 output has none either, and deciphering with
  the key, nonce and tag of an encryption returns the plaintext.
\<close>

definition lib_correct :: "'k crypto_lib \<Rightarrow> bool" where
  "lib_correct L =
     ((\<forall>b. fromBase64 L (toBase64 L b) = b \<and> CHR '':'' \<notin> set (toBase64 L b)) \<and>
      (\<forall>k iv s. CHR '':'' \<notin> set (fst (cipher L k iv s)) \<and>
         decipher L k iv (snd (cipher L k iv s)) (fst (cipher L k iv s)) = Some s))"

subsection \<open>Notions used to state the properties of the store\<close>

text \<open>
  The account without its four sensitive fields: two accounts with the same \<open>redact\<close>
  agree on every other field.
\<close>

definition redact_auth :: "auth_cfg \<Rightarrow> auth_cfg" where
  "redact_auth au =
     au\<lparr>password := None, accessToken := None, refreshToken := None, clientSecret := None\<rparr>"

definition redact :: "account \<Rightarrow> account" where
  "redact a = a\<lparr>auth := redact_auth (auth a)\<rparr>"

text \<open>
  A master secret is there already (in the environment, or in a key file that exists), so
  that key resolution generates nothing; and key resolution does not fail.
\<close>

definition key_present :: "world \<Rightarrow> bool" where
  "key_present w = (env_value (env_MCP_MASTER_KEY w) \<noteq> [] \<or> existsSync (key_file w))"

definition key_resolvable :: "world \<Rightarrow> bool" where
  "key_resolvable w = (env_value (env_MCP_MASTER_KEY w) \<noteq> [] \<or> key_file w \<noteq> Unreadable)"

text \<open>
  What a read makes of one stored sensitive field, as a function of the stored value alone:
  a non-empty tagged value becomes its decryption, or stays as stored when the decryption
  fails; any other value stays as stored. \<open>field_fails\<close> says that the decryption fails.
\<close>

definition field_after_read :: "'k crypto_lib \<Rightarrow> world \<Rightarrow> string option \<Rightarrow> string option" where
  "field_after_read L w x =
     (case x of
        None \<Rightarrow> None
      | Some v \<Rightarrow>
          if v \<noteq> [] \<and> isEncrypted v then
            (case fst (decrypt L w v) of Inr d \<Rightarrow> Some d | Inl err \<Rightarrow> Some v)
          else Some v)"

definition field_fails :: "'k crypto_lib \<Rightarrow> world \<Rightarrow> string option \<Rightarrow> bool" where
  "field_fails L w x =
     (case x of
        None \<Rightarrow> False
      | Some v \<Rightarrow> v \<noteq> [] \<and> isEncrypted v \<and> isl (fst (decrypt L w v)))"

definition account_after_read :: "'k crypto_lib \<Rightarrow> world \<Rightarrow> account \<Rightarrow> account" where
  "account_after_read L w a =
     a\<lparr>auth := (auth a)
        \<lparr>password := field_after_read L w (password (auth a)),
         accessToken := field_after_read L w (accessToken (auth a)),
         refreshToken := field_after_read L w (refreshToken (auth a)),
         clientSecret := field_after_read L w (clientSecret (auth a))\<rparr>\<rparr>"

text \<open>
  The stored form \<open>y\<close> of a sensitive field that the caller gave as \<open>x\<close>: an absent, empty
  or tagged value is stored as given, any other value as a tagged value that \<open>encrypt\<close>
  returned for it.
\<close>

definition stored_form :: "'k crypto_lib \<Rightarrow> string option \<Rightarrow> string option \<Rightarrow> bool" where
  "stored_form L x y =
     (case x of
        None \<Rightarrow> y = None
      | Some v \<Rightarrow>
          if v = [] \<or> isEncrypted v then y = Some v
          else (\<exists>c w1 w2. encrypt L w1 v = (Inr c, w2) \<and> isEncrypted c \<and> y = Some c))"




text \<open>The document as the store reads it: no file or no parse is the empty collection.\<close>

definition stored_accounts :: "world \<Rightarrow> account list" where
  "stored_accounts w =
     (case accounts_file w of Readable (Accounts accounts) \<Rightarrow> accounts | _ \<Rightarrow> [])"

text \<open>
  The list that \<open>addAccount\<close> writes, as a function of the identifier, the encrypted record
  and the list it read.
\<close>

definition upsert :: "string \<Rightarrow> account \<Rightarrow> account list \<Rightarrow> account list" where
  "upsert k e xs =
     (case findIndex (\<lambda>x. acct_id x = k) xs of Some i \<Rightarrow> xs[i := e] | None \<Rightarrow> xs @ [e])"

text \<open>
  \<open>keeps_secret w w1\<close>: the world \<open>w1\<close> has the environment secret of \<open>w\<close> and, where \<open>w\<close>
  has a key file, that key file. Every world that an operation of the store reaches from
  \<open>w\<close> is such a world.
\<close>

definition keeps_secret :: "world \<Rightarrow> world \<Rightarrow> bool" where
  "keeps_secret w w1 =
     (env_MCP_MASTER_KEY w1 = env_MCP_MASTER_KEY w \<and>
      (existsSync (key_file w) \<longrightarrow> key_file w1 = key_file w))"

text \<open>
  \<open>ciphertext_of L w p c\<close>: the string \<open>c\<close> is the tag followed by the base64 of a nonce of
  16 bytes, of the authentication tag and of the ciphertext that the cipher gives for the
  plaintext \<open>p\<close>, that nonce and a master key resolved in a world that keeps the secret
  of \<open>w\<close>. \<open>stored_secret\<close> is \<open>stored_form\<close> with this in the place of "a value that
  \<open>encrypt\<close> returned".
\<close>

definition ciphertext_of :: "'k crypto_lib \<Rightarrow> world \<Rightarrow> string \<Rightarrow> string \<Rightarrow> bool" where
  "ciphertext_of L w p c =
     (\<exists>w1 k iv. keeps_secret w w1 \<and> fst (getLocalMasterKey L w1) = Inr k \<and>
        length iv = IV_LENGTH \<and>
        c = PREFIX_LOCAL @ toBase64 L iv @ '':'' @ toBase64 L (snd (cipher L k iv p)) @ '':'' @
              fst (cipher L k iv p))"

definition stored_secret ::
  "'k crypto_lib \<Rightarrow> world \<Rightarrow> string option \<Rightarrow> string option \<Rightarrow> bool" where
  "stored_secret L w x y =
     (case x of
        None \<Rightarrow> y = None
      | Some v \<Rightarrow>
          if v = [] \<or> isEncrypted v then y = Some v
          else (\<exists>c. y = Some c \<and> ciphertext_of L w v c))"


subsection \<open>Concrete worlds, accounts and arguments\<close>

text \<open>Worlds and accounts for the evaluations below.\<close>

definition world0 :: world where
  "world0 =
     \<lparr>env_MCP_MASTER_KEY = Some ''s3cret'', config_dir = True, key_file = Absent,
      key_file_mode = 0, accounts_file = Absent, entropy = (\<lambda>n. CHR ''r''),
      entropy_pos = 0, console = []\<rparr>"

definition account0 :: account where
  "account0 =
     \<lparr>acct_id = ''a-b-com'', email = ''a@b.com'', name = Some ''a'', provider = Custom,
      enabled = True,
      imap = Some \<lparr>imap_host = ''mail.b.com'', imap_port = 993, imap_tls = True\<rparr>,
      smtp = Some \<lparr>smtp_host = ''mail.b.com'', smtp_port = 587, smtp_secure = False\<rparr>,
      auth = \<lparr>auth_type = PasswordAuth, user = ''a@b.com'', password = Some ''Secret1'',
              accessToken = None, refreshToken = None, clientId = None,
              clientSecret = None, tokenExpiry = None\<rparr>,
      sync = None\<rparr>"

definition world_keyfile :: world where
  "world_keyfile = world0\<lparr>env_MCP_MASTER_KEY := None, key_file := Readable (''abc'' @ [CHR 0x0A])\<rparr>"

definition world_unreadable :: world where
  "world_unreadable = world0\<lparr>env_MCP_MASTER_KEY := None, key_file := Unreadable\<rparr>"

definition world_fresh :: world where
  "world_fresh = world0\<lparr>env_MCP_MASTER_KEY := None, config_dir := False\<rparr>"

definition account0b :: account where
  "account0b = account0\<lparr>auth := (auth account0)\<lparr>password := Some ''Secret2''\<rparr>\<rparr>"

text \<open>
  A stored record whose password is a ciphertext of the instance above under the secret
  of \<open>world0\<close> and whose refresh token is a tagged value that is no ciphertext; a world
  whose document holds it; and a world whose document does not parse.
\<close>

definition sealed0 :: account where
  "sealed0 =
     account0\<lparr>auth := (auth account0)
       \<lparr>password := Some ''enc:local:rrrrrrrrrrrrrrrr:terc3sSecret1rrr:Secret1'',
        refreshToken := Some ''enc:local:garbage''\<rparr>\<rparr>"

definition world_doc :: world where
  "world_doc = world0\<lparr>accounts_file := Readable (Accounts [sealed0])\<rparr>"

definition world_bad :: world where
  "world_bad = world0\<lparr>accounts_file := Readable Unparseable\<rparr>"



text \<open>The arguments \<^verbatim>\<open>{email: "alice@gmail.com", password: "pw"}\<close> of the tool.\<close>

definition args_gmail :: add_args where
  "args_gmail =
     \<lparr>arg_email = ''alice@gmail.com'', arg_password = ''pw'', arg_name = None,
      arg_provider = None, arg_imap_host = None, arg_imap_port = None,
      arg_smtp_host = None, arg_smtp_port = None, arg_test_connection = None\<rparr>"

section \<open>Properties\<close>

subsection \<open>The field cipher\<close>

lemma isEncrypted_tagged: "isEncrypted (PREFIX_LOCAL @ x)"
  by (simp add: isEncrypted_def startsWith_def)

lemma encryptLocal_tagged:
  assumes "encryptLocal L w s = (Inr e, w1)"
  shows "isEncrypted e"
  using assms
  by (auto simp: encryptLocal_def Let_def isEncrypted_tagged split: prod.splits sum.splits)

lemma encrypt_tagged_noop: "isEncrypted e \<Longrightarrow> encrypt L w e = (Inr e, w)"
  by (simp add: encrypt_def)

lemma encryptLocal_returns:
  assumes "\<not> isl (fst (getLocalMasterKey L w))"
  shows "\<exists>e w1. encryptLocal L w s = (Inr e, w1)"
proof -
  obtain r w0 where g: "getLocalMasterKey L w = (r, w0)" by (cases "getLocalMasterKey L w")
  with assms obtain k where "r = Inr k" by (cases r) auto
  with g show ?thesis
    by (simp add: encryptLocal_def Let_def split: prod.splits)
qed

lemma world0_key: "getLocalMasterKey toy_lib world0 = (Inr (''s3cret'', SALT, 32), world0)"
  by (simp add: getLocalMasterKey_def world0_def env_value_def toy_lib_def KEY_LENGTH_def)

text \<open>
  Claim C4. \<open>encrypt\<close> returns its input unchanged, in an unchanged world, when the input
  is empty or already tagged. Whatever \<open>encrypt\<close> returns for \<open>s\<close>, encrypting that value
  again returns it unchanged in any world, and it is tagged when \<open>s\<close> is not empty.
  \<open>encrypt\<close> returns a value whenever the master key resolves.
\<close>

theorem encrypt_noop_and_idempotent:
  "(s = [] \<or> isEncrypted s \<longrightarrow> encrypt L w s = (Inr s, w)) \<and>
   (\<forall>e w1. encrypt L w s = (Inr e, w1) \<longrightarrow>
      (\<forall>w2. encrypt L w2 e = (Inr e, w2)) \<and> (s \<noteq> [] \<longrightarrow> isEncrypted e)) \<and>
   (\<not> isl (fst (getLocalMasterKey L w)) \<longrightarrow> (\<exists>e w1. encrypt L w s = (Inr e, w1)))"
proof (intro conjI allI impI)
  assume "s = [] \<or> isEncrypted s"
  then show "encrypt L w s = (Inr s, w)" by (simp add: encrypt_def)
next
  fix e w1 w2
  assume r: "encrypt L w s = (Inr e, w1)"
  show "encrypt L w2 e = (Inr e, w2)"
  proof (cases "s = [] \<or> isEncrypted s")
    case True
    with r have "e = s" by (simp add: encrypt_def)
    with True show ?thesis by (simp add: encrypt_def)
  next
    case False
    with r have "encryptLocal L w s = (Inr e, w1)" by (simp add: encrypt_def)
    then show ?thesis by (simp add: encryptLocal_tagged encrypt_tagged_noop)
  qed
next
  fix e w1
  assume r: "encrypt L w s = (Inr e, w1)" and ne: "s \<noteq> []"
  show "isEncrypted e"
  proof (cases "isEncrypted s")
    case True
    with r show ?thesis by (simp add: encrypt_def)
  next
    case False
    with r ne have "encryptLocal L w s = (Inr e, w1)" by (simp add: encrypt_def)
    then show ?thesis by (rule encryptLocal_tagged)
  qed
next
  assume "\<not> isl (fst (getLocalMasterKey L w))"
  then show "\<exists>e w1. encrypt L w s = (Inr e, w1)"
    using encryptLocal_returns [of L w s] by (auto simp: encrypt_def)
qed

theorem encrypt_noop_and_idempotent_witness:
  "encrypt toy_lib world0 [] = (Inr [], world0) \<and>
   encrypt toy_lib world0 ''enc:local:x'' = (Inr ''enc:local:x'', world0) \<and>
   (\<exists>e w1. encrypt toy_lib world0 ''Secret1'' = (Inr e, w1) \<and>
      encrypt toy_lib w1 e = (Inr e, w1) \<and> isEncrypted e)"
proof -
  have k: "\<not> isl (fst (getLocalMasterKey toy_lib world0))" by (simp add: world0_key)
  have t: "isEncrypted ''enc:local:x''"
    by (simp add: isEncrypted_def startsWith_def PREFIX_LOCAL_def)
  from encrypt_noop_and_idempotent [of "[]" toy_lib world0]
  have a: "encrypt toy_lib world0 [] = (Inr [], world0)" by simp
  from encrypt_noop_and_idempotent [of "''enc:local:x''" toy_lib world0] t
  have b: "encrypt toy_lib world0 ''enc:local:x'' = (Inr ''enc:local:x'', world0)" by simp
  from encrypt_noop_and_idempotent [of "''Secret1''" toy_lib world0] k
  obtain e w1 where e: "encrypt toy_lib world0 ''Secret1'' = (Inr e, w1)" by blast
  with encrypt_noop_and_idempotent [of "''Secret1''" toy_lib world0]
  have "encrypt toy_lib w1 e = (Inr e, w1) \<and> isEncrypted e" by simp
  with a b e show ?thesis by blast
qed

lemma split_str_nosep: "d \<notin> set a \<Longrightarrow> split_str d a = [a]"
  by (induction a) auto

lemma split_str_append: "d \<notin> set a \<Longrightarrow> split_str d (a @ d # b) = a # split_str d b"
  by (induction a) auto

lemma toy_unescape_step: "c \<noteq> CHR ''='' \<Longrightarrow> toy_unescape (c # r) = c # toy_unescape r"
  by (cases r) auto

lemma toy_roundtrip: "toy_unescape (toy_escape b) = b"
  by (induction b) (auto simp: toy_unescape_step)

lemma toy_nocolon: "CHR '':'' \<notin> set (toy_escape b)"
  by (induction b) auto

lemma toy_lib_correct: "lib_correct toy_lib"
  by (simp add: lib_correct_def toy_lib_def toy_roundtrip toy_nocolon)

subsection \<open>The key manager\<close>

text \<open>
  Claim C5, as amended. The master key is resolved in this order. (1) A non-empty
  environment secret is the input of the derivation, and nothing is read or written.
  (2) Otherwise, when the key file is readable, its contents with leading and trailing
  white space removed are the input. (3) Otherwise, when there is no key file, the next 32
  bytes of the random source are drawn, their base64 text is written to the key file with
  mode \<^verbatim>\<open>0o600\<close>, and that text is the input. In each case the key returned is
  \<open>scryptSync\<close> of the input, the fixed salt and the length 32.
\<close>

theorem master_key_resolution:
  "(env_value (env_MCP_MASTER_KEY w) \<noteq> [] \<longrightarrow>
      getLocalMasterKey L w = (Inr (scryptSync L (env_value (env_MCP_MASTER_KEY w)) SALT 32), w)) \<and>
   (env_value (env_MCP_MASTER_KEY w) = [] \<longrightarrow>
      (\<forall>c. key_file w = Readable c \<longrightarrow>
         getLocalMasterKey L w = (Inr (scryptSync L (trim c) SALT 32), w))) \<and>
   (env_value (env_MCP_MASTER_KEY w) = [] \<and> key_file w = Absent \<longrightarrow>
      (\<exists>bytes secret w1.
         bytes = map (entropy w) [entropy_pos w ..< entropy_pos w + 32] \<and>
         length bytes = 32 \<and>
         secret = toBase64 L bytes \<and>
         getLocalMasterKey L w = (Inr (scryptSync L secret SALT 32), w1) \<and>
         key_file w1 = Readable secret \<and> key_file_mode w1 = 384 \<and>
         entropy_pos w1 = entropy_pos w + 32 \<and>
         env_MCP_MASTER_KEY w1 = env_MCP_MASTER_KEY w \<and>
         accounts_file w1 = accounts_file w))"
  by (simp add: getLocalMasterKey_def KEY_LENGTH_def Let_def randomBytes_def console_error_def
      ensureConfigDir_def)

theorem master_key_resolution_witness:
  "getLocalMasterKey toy_lib world0 = (Inr (''s3cret'', SALT, 32), world0) \<and>
   getLocalMasterKey toy_lib world_keyfile = (Inr (''abc'', SALT, 32), world_keyfile) \<and>
   (\<exists>w1. getLocalMasterKey toy_lib world_fresh =
            (Inr (''rrrrrrrrrrrrrrrrrrrrrrrrrrrrrrrr'', SALT, 32), w1) \<and>
         key_file w1 = Readable ''rrrrrrrrrrrrrrrrrrrrrrrrrrrrrrrr'' \<and> key_file_mode w1 = 384)"
proof -
  have e0: "env_value (env_MCP_MASTER_KEY world0) = ''s3cret''"
    by (simp add: world0_def env_value_def)
  have e1: "env_value (env_MCP_MASTER_KEY world_keyfile) = []"
    "key_file world_keyfile = Readable (''abc'' @ [CHR 0x0A])"
    by (simp_all add: world_keyfile_def world0_def env_value_def)
  have t: "trim (''abc'' @ [CHR 0x0A]) = ''abc''" by (simp add: trim_def is_ws_def)
  have e2: "env_value (env_MCP_MASTER_KEY world_fresh) = []" "key_file world_fresh = Absent"
    by (simp_all add: world_fresh_def world0_def env_value_def)
  have b: "toBase64 toy_lib (map (entropy world_fresh)
             [entropy_pos world_fresh ..< entropy_pos world_fresh + 32]) =
           ''rrrrrrrrrrrrrrrrrrrrrrrrrrrrrrrr''"
    by (simp add: world_fresh_def world0_def toy_lib_def upt_rec)
  have s: "\<And>a b c. scryptSync toy_lib a b c = (a, b, c)" by (simp add: toy_lib_def)
  from master_key_resolution [of world0 toy_lib] e0
  have 1: "getLocalMasterKey toy_lib world0 = (Inr (''s3cret'', SALT, 32), world0)"
    by (simp add: s)
  from master_key_resolution [of world_keyfile toy_lib] e1 t
  have 2: "getLocalMasterKey toy_lib world_keyfile = (Inr (''abc'', SALT, 32), world_keyfile)"
    by (simp add: s)
  from master_key_resolution [of world_fresh toy_lib] e2 b
  have 3: "\<exists>w1. getLocalMasterKey toy_lib world_fresh =
            (Inr (''rrrrrrrrrrrrrrrrrrrrrrrrrrrrrrrr'', SALT, 32), w1) \<and>
         key_file w1 = Readable ''rrrrrrrrrrrrrrrrrrrrrrrrrrrrrrrr'' \<and> key_file_mode w1 = 384"
    by (auto simp: s)
  from 1 2 3 show ?thesis by blast
qed

text \<open>
  Claim C5 as stated fails in case (2): for a key file holding \<open>abc\<close> and a line feed,
  the input of the derivation is \<open>abc\<close>, not the contents of the file.
\<close>

theorem key_file_contents_trimmed_counterexample:
  "key_file world_keyfile = Readable (''abc'' @ [CHR 0x0A]) \<and>
   env_MCP_MASTER_KEY world_keyfile = None \<and>
   fst (getLocalMasterKey toy_lib world_keyfile) = Inr (scryptSync toy_lib ''abc'' SALT 32) \<and>
   fst (getLocalMasterKey toy_lib world_keyfile)
     \<noteq> Inr (scryptSync toy_lib (''abc'' @ [CHR 0x0A]) SALT 32)"
  by (simp add: world_keyfile_def world0_def getLocalMasterKey_def env_value_def toy_lib_def
      trim_def is_ws_def KEY_LENGTH_def)

text \<open>
  Claim C6, as amended. With no environment secret, a key file that exists and cannot be
  read makes key resolution fail with the read error, in an unchanged world. Whenever the
  key file exists, key resolution leaves the world as it was: nothing is generated and
  nothing is written.
\<close>

theorem unreadable_key_file_is_fatal:
  "(env_value (env_MCP_MASTER_KEY w) = [] \<and> key_file w = Unreadable \<longrightarrow>
      getLocalMasterKey L w = (Inl FsReadError, w)) \<and>
   (existsSync (key_file w) \<longrightarrow> snd (getLocalMasterKey L w) = w)"
  by (cases "key_file w") (simp_all add: getLocalMasterKey_def)

theorem unreadable_key_file_is_fatal_witness:
  "getLocalMasterKey toy_lib world_unreadable = (Inl FsReadError, world_unreadable) \<and>
   snd (getLocalMasterKey toy_lib world_keyfile) = world_keyfile"
proof -
  have u: "env_value (env_MCP_MASTER_KEY world_unreadable) = [] \<and>
           key_file world_unreadable = Unreadable"
    by (simp add: world_unreadable_def world0_def env_value_def)
  have k: "existsSync (key_file world_keyfile)"
    by (simp add: world_keyfile_def world0_def)
  from unreadable_key_file_is_fatal [of world_unreadable toy_lib] u
  have 1: "getLocalMasterKey toy_lib world_unreadable = (Inl FsReadError, world_unreadable)"
    by simp
  from unreadable_key_file_is_fatal [of world_keyfile toy_lib] k
  have 2: "snd (getLocalMasterKey toy_lib world_keyfile) = world_keyfile" by simp
  from 1 2 show ?thesis by simp
qed

text \<open>
  Claim C6 as stated fails when an environment secret is supplied: the key file is not
  consulted, and key resolution returns a key although the file cannot be read.
\<close>

theorem env_secret_hides_unreadable_key_file_counterexample:
  "key_file (world0\<lparr>key_file := Unreadable\<rparr>) = Unreadable \<and>
   getLocalMasterKey toy_lib (world0\<lparr>key_file := Unreadable\<rparr>) =
     (Inr (scryptSync toy_lib ''s3cret'' SALT 32), world0\<lparr>key_file := Unreadable\<rparr>)"
  by (simp add: world0_def getLocalMasterKey_def env_value_def toy_lib_def KEY_LENGTH_def)

subsection \<open>The round trip\<close>

lemma drop_PREFIX [simp]: "drop (length PREFIX_LOCAL) (PREFIX_LOCAL @ x) = x"
  by simp

lemma split_str_three:
  assumes "d \<notin> set a" "d \<notin> set b" "d \<notin> set c"
  shows "split_str d (a @ d # b @ d # c) = [a, b, c]"
  using assms by (simp add: split_str_append split_str_nosep)

lemma decryptLocal_of_encryption:
  assumes lib: "lib_correct L"
    and key: "fst (getLocalMasterKey L w2) = Inr k"
  shows "fst (decryptLocal L w2
            (PREFIX_LOCAL @ toBase64 L iv @ '':'' @ toBase64 L (snd (cipher L k iv s)) @ '':'' @
               fst (cipher L k iv s))) = Inr s"
proof -
  obtain w3 where g: "getLocalMasterKey L w2 = (Inr k, w3)"
    using key by (cases "getLocalMasterKey L w2") auto
  have b: "\<And>x. fromBase64 L (toBase64 L x) = x" "\<And>x. CHR '':'' \<notin> set (toBase64 L x)"
    using lib by (simp_all add: lib_correct_def)
  have c: "CHR '':'' \<notin> set (fst (cipher L k iv s))"
    "decipher L k iv (snd (cipher L k iv s)) (fst (cipher L k iv s)) = Some s"
    using lib by (simp_all add: lib_correct_def)
  have parts: "split_str CHR '':'' (drop (length PREFIX_LOCAL)
      (PREFIX_LOCAL @ toBase64 L iv @ '':'' @ toBase64 L (snd (cipher L k iv s)) @ '':'' @
         fst (cipher L k iv s)))
      = [toBase64 L iv, toBase64 L (snd (cipher L k iv s)), fst (cipher L k iv s)]"
    using split_str_three [OF b(2) b(2) c(1)] by simp
  show ?thesis
    unfolding decryptLocal_def g
    by (simp only: prod.case sum.case parts Let_def) (simp add: b c)
qed

text \<open>
  Claim C2, as amended. Let the primitives be correct (\<open>lib_correct\<close>), let \<open>s\<close> be any
  string that does not begin with the format tag, the empty string included, and let the
  master key resolve to the same key \<open>k\<close> where \<open>s\<close> is encrypted and where the result is
  decrypted. Then \<open>encrypt\<close> returns a value, and \<open>decrypt\<close> of that value returns \<open>s\<close>.
\<close>

theorem decrypt_encrypt_roundtrip:
  assumes "lib_correct L"
    and "\<not> isEncrypted s"
    and "fst (getLocalMasterKey L w) = Inr k"
    and "fst (getLocalMasterKey L w2) = Inr k"
  shows "\<exists>e w1. encrypt L w s = (Inr e, w1) \<and> fst (decrypt L w2 e) = Inr s"
proof (cases "s = []")
  case True
  then show ?thesis by (simp add: encrypt_def decrypt_def)
next
  case False
  obtain w0 where g: "getLocalMasterKey L w = (Inr k, w0)"
    using assms(3) by (cases "getLocalMasterKey L w") auto
  define iv where "iv = fst (randomBytes IV_LENGTH w0)"
  define e where "e = PREFIX_LOCAL @ toBase64 L iv @ '':'' @
      toBase64 L (snd (cipher L k iv s)) @ '':'' @ fst (cipher L k iv s)"
  have enc: "encrypt L w s = (Inr e, snd (randomBytes IV_LENGTH w0))"
    using False assms(2)
    by (simp add: encrypt_def encryptLocal_def g Let_def e_def iv_def split: prod.splits)
  have "isEncrypted e" unfolding e_def by (rule isEncrypted_tagged)
  moreover have "e \<noteq> []" unfolding e_def by (simp add: PREFIX_LOCAL_def)
  ultimately have tagged: "isEncrypted e" "e \<noteq> []" by simp_all
  have "fst (decryptLocal L w2 e) = Inr s"
    unfolding e_def using assms(1,4) by (rule decryptLocal_of_encryption)
  with tagged have "fst (decrypt L w2 e) = Inr s"
    by (simp add: decrypt_def isEncrypted_def)
  with enc show ?thesis by blast
qed

theorem decrypt_encrypt_roundtrip_witness:
  "\<not> isEncrypted ''Secret1'' \<and>
   (\<exists>e w1. encrypt toy_lib world0 ''Secret1'' = (Inr e, w1) \<and>
      fst (decrypt toy_lib world0 e) = Inr ''Secret1'') \<and>
   (\<exists>e w1. encrypt toy_lib world0 [] = (Inr e, w1) \<and> fst (decrypt toy_lib world0 e) = Inr [])"
proof -
  have p: "\<not> isEncrypted ''Secret1''" "\<not> isEncrypted []"
    by (simp_all add: isEncrypted_def startsWith_def PREFIX_LOCAL_def)
  have k: "fst (getLocalMasterKey toy_lib world0) = Inr (''s3cret'', SALT, 32)"
    by (simp add: world0_key)
  from decrypt_encrypt_roundtrip [OF toy_lib_correct p(1) k k]
    decrypt_encrypt_roundtrip [OF toy_lib_correct p(2) k k] p(1)
  show ?thesis by blast
qed

text \<open>
  Claim C2 as stated fails for a plaintext that begins with the format tag: \<open>encrypt\<close>
  returns it unchanged, and \<open>decrypt\<close> then takes it for a ciphertext and throws.
\<close>

theorem tagged_plaintext_roundtrip_counterexample:
  "encrypt toy_lib world0 ''enc:local:abc'' = (Inr ''enc:local:abc'', world0) \<and>
   fst (decrypt toy_lib world0 ''enc:local:abc'') = Inl InvalidLocalEncryptedFormat"
  by (simp add: encrypt_def decrypt_def decryptLocal_def isEncrypted_def startsWith_def
      PREFIX_LOCAL_def world0_key)

subsection \<open>Reading and writing one field\<close>

lemma get_set_field:
  "get_field g (set_field f v au) = (if g = f then Some v else get_field g au)"
  by (cases f; cases g) simp_all

lemma redact_set_field [simp]: "redact_auth (set_field f v au) = redact_auth au"
  by (cases f) (simp_all add: redact_auth_def)

lemma distinct_fields: "distinct SENSITIVE_AUTH_FIELDS"
  by (simp add: SENSITIVE_AUTH_FIELDS_def)

lemma all_fields: "f \<in> set SENSITIVE_AUTH_FIELDS"
  by (cases f) (simp_all add: SENSITIVE_AUTH_FIELDS_def)

subsection \<open>Key resolution and the worlds it leaves\<close>

lemma getLocalMasterKey_resolvable:
  "isl (fst (getLocalMasterKey L w)) = (\<not> key_resolvable w)"
  by (cases "key_file w")
    (simp_all add: getLocalMasterKey_def key_resolvable_def Let_def split: prod.splits)

lemma getLocalMasterKey_keeps_resolvable:
  "key_resolvable w \<Longrightarrow> key_resolvable (snd (getLocalMasterKey L w))"
  by (cases "key_file w")
    (simp_all add: getLocalMasterKey_def key_resolvable_def Let_def randomBytes_def
      console_error_def ensureConfigDir_def split: prod.splits)

lemma getLocalMasterKey_keeps_accounts_file:
  "accounts_file (snd (getLocalMasterKey L w)) = accounts_file w"
  by (cases "key_file w")
    (simp_all add: getLocalMasterKey_def Let_def randomBytes_def
      console_error_def ensureConfigDir_def split: prod.splits)

lemma encrypt_world:
  assumes "encrypt L w v = (r, w1)"
  shows "accounts_file w1 = accounts_file w \<and> (key_resolvable w \<longrightarrow> key_resolvable w1)"
proof (cases "v = [] \<or> isEncrypted v")
  case True
  with assms show ?thesis by (auto simp: encrypt_def)
next
  case False
  obtain r0 w0 where g: "getLocalMasterKey L w = (r0, w0)" by (cases "getLocalMasterKey L w")
  have w0: "accounts_file w0 = accounts_file w" "key_resolvable w \<Longrightarrow> key_resolvable w0"
    using getLocalMasterKey_keeps_accounts_file [of L w]
      getLocalMasterKey_keeps_resolvable [of w L] g by simp_all
  from assms False g have "w1 = w0 \<or> w1 = snd (randomBytes IV_LENGTH w0)"
    by (cases r0) (auto simp: encrypt_def encryptLocal_def Let_def split: prod.splits)
  with w0 show ?thesis
    by (auto simp: randomBytes_def key_resolvable_def)
qed

lemma encrypt_returns:
  assumes "key_resolvable w"
  shows "\<exists>c w1. encrypt L w v = (Inr c, w1)"
proof -
  from assms have "\<not> isl (fst (getLocalMasterKey L w))"
    by (simp add: getLocalMasterKey_resolvable)
  then show ?thesis using encryptLocal_returns [of L w v] by (auto simp: encrypt_def)
qed

subsection \<open>encryptAccount\<close>

lemma encryptAccount_loop_result:
  assumes "encryptAccount_loop L fs au w = (Inr au', w')" and "distinct fs"
  shows "redact_auth au' = redact_auth au \<and>
         accounts_file w' = accounts_file w \<and>
         (key_resolvable w \<longrightarrow> key_resolvable w') \<and>
         (\<forall>f. if f \<in> set fs then stored_form L (get_field f au) (get_field f au')
               else get_field f au' = get_field f au)"
  using assms
proof (induction fs arbitrary: au w)
  case Nil
  then show ?case by simp
next
  case (Cons g fs)
  show ?case
  proof (cases "\<exists>v. get_field g au = Some v \<and> v \<noteq> [] \<and> \<not> isEncrypted v")
    case False
    then have step: "encryptAccount_loop L (g # fs) au w = encryptAccount_loop L fs au w"
      by (auto split: option.splits)
    from False have sf: "stored_form L (get_field g au) (get_field g au)"
      by (auto simp: stored_form_def split: option.splits)
    from Cons.prems step have r: "encryptAccount_loop L fs au w = (Inr au', w')" by simp
    from Cons.prems have d: "distinct fs" "g \<notin> set fs" by simp_all
    from Cons.IH [OF r d(1)] d(2) sf show ?thesis by auto
  next
    case True
    then obtain v where v: "get_field g au = Some v" "v \<noteq> []" "\<not> isEncrypted v" by blast
    obtain r1 w1 where e: "encrypt L w v = (r1, w1)" by (cases "encrypt L w v")
    with Cons.prems(1) v obtain c where c: "r1 = Inr c"
      by (cases r1) auto
    with Cons.prems(1) v e
    have r: "encryptAccount_loop L fs (set_field g c au) w1 = (Inr au', w')" by simp
    from Cons.prems have d: "distinct fs" "g \<notin> set fs" by simp_all
    from e c v have tagged: "isEncrypted c"
      using encryptLocal_tagged [of L w v c w1] by (simp add: encrypt_def)
    from e c v tagged have sf: "stored_form L (get_field g au) (Some c)"
      by (auto simp: stored_form_def)
    note w = encrypt_world [OF e]
    note ih = Cons.IH [OF r d(1)]
    have fields: "if f \<in> set (g # fs) then stored_form L (get_field f au) (get_field f au')
               else get_field f au' = get_field f au" for f
    proof -
      from ih have ihf: "if f \<in> set fs
          then stored_form L (get_field f (set_field g c au)) (get_field f au')
          else get_field f au' = get_field f (set_field g c au)"
        by blast
      show ?thesis
      proof (cases "f = g")
        case True
        with ihf d(2) have "get_field f au' = Some c"
          by (cases "f \<in> set fs") (simp_all add: get_set_field)
        with True sf show ?thesis by simp
      next
        case False
        with ihf show ?thesis by (cases "f \<in> set fs") (simp_all add: get_set_field)
      qed
    qed
    from ih w have "redact_auth au' = redact_auth au" "accounts_file w' = accounts_file w"
      "key_resolvable w \<longrightarrow> key_resolvable w'" by simp_all
    with fields show ?thesis by blast
  qed
qed

lemma encryptAccount_loop_keeps_accounts_file:
  "accounts_file (snd (encryptAccount_loop L fs au w)) = accounts_file w"
proof (induction fs arbitrary: au w)
  case Nil
  then show ?case by simp
next
  case (Cons g fs)
  show ?case
  proof (cases "\<exists>v. get_field g au = Some v \<and> v \<noteq> [] \<and> \<not> isEncrypted v")
    case False
    then have "encryptAccount_loop L (g # fs) au w = encryptAccount_loop L fs au w"
      by (auto split: option.splits)
    with Cons.IH show ?thesis by simp
  next
    case True
    then obtain v where v: "get_field g au = Some v" "v \<noteq> []" "\<not> isEncrypted v" by blast
    obtain r1 w1 where e: "encrypt L w v = (r1, w1)" by (cases "encrypt L w v")
    from encrypt_world [OF e] have "accounts_file w1 = accounts_file w" by simp
    with v e Cons.IH [of _ w1] show ?thesis by (cases r1) simp_all
  qed
qed

lemma encryptAccount_loop_returns:
  assumes "key_resolvable w"
  shows "\<exists>au' w'. encryptAccount_loop L fs au w = (Inr au', w')"
  using assms
proof (induction fs arbitrary: au w)
  case Nil
  then show ?case by simp
next
  case (Cons g fs)
  show ?case
  proof (cases "\<exists>v. get_field g au = Some v \<and> v \<noteq> [] \<and> \<not> isEncrypted v")
    case False
    then have "encryptAccount_loop L (g # fs) au w = encryptAccount_loop L fs au w"
      by (auto split: option.splits)
    with Cons.IH [OF Cons.prems] show ?thesis by simp
  next
    case True
    then obtain v where v: "get_field g au = Some v" "v \<noteq> []" "\<not> isEncrypted v" by blast
    from encrypt_returns [OF Cons.prems] obtain c w1 where e: "encrypt L w v = (Inr c, w1)"
      by blast
    from encrypt_world [OF e] Cons.prems have "key_resolvable w1" by simp
    from Cons.IH [OF this] v e show ?thesis by simp
  qed
qed

lemma encryptAccount_result:
  assumes "encryptAccount L w a = (Inr enc, w')"
  shows "redact enc = redact a \<and>
         accounts_file w' = accounts_file w \<and>
         (key_resolvable w \<longrightarrow> key_resolvable w') \<and>
         (\<forall>f. stored_form L (get_field f (auth a)) (get_field f (auth enc)))"
proof -
  from assms obtain au' where
    l: "encryptAccount_loop L SENSITIVE_AUTH_FIELDS (auth a) w = (Inr au', w')"
    and enc: "enc = a\<lparr>auth := au'\<rparr>"
    by (auto simp: encryptAccount_def split: prod.splits sum.splits)
  from encryptAccount_loop_result [OF l distinct_fields] enc show ?thesis
    by (simp add: redact_def all_fields)
qed

lemma encryptAccount_returns:
  assumes "key_resolvable w"
  shows "\<exists>enc w'. encryptAccount L w a = (Inr enc, w')"
  using encryptAccount_loop_returns [OF assms, of L SENSITIVE_AUTH_FIELDS "auth a"]
  by (auto simp: encryptAccount_def)

lemma encryptAccount_keeps_accounts_file:
  "accounts_file (snd (encryptAccount L w a)) = accounts_file w"
  using encryptAccount_loop_keeps_accounts_file [of L SENSITIVE_AUTH_FIELDS "auth a" w]
  by (auto simp: encryptAccount_def split: prod.splits sum.splits)

lemma redact_acct_id: "redact a = redact b \<Longrightarrow> acct_id a = acct_id b \<and> email a = email b"
  by (metis (no_types) redact_def account.select_convs(1,2) account.surjective account.update_convs(8))

subsection \<open>addAccount and removeAccount on the document\<close>

text \<open>The write of \<open>addAccount\<close>: replace the first record with the identifier, or append.\<close>

lemma upsert_Nil [simp]: "upsert k e [] = [e]"
  by (simp add: upsert_def)

lemma upsert_Cons [simp]:
  "upsert k e (x # xs) = (if acct_id x = k then e # xs else x # upsert k e xs)"
  by (cases "findIndex (\<lambda>x. acct_id x = k) xs") (simp_all add: upsert_def)

lemma upsert_filter_other:
  assumes "acct_id e = k" and "j \<noteq> k"
  shows "filter (\<lambda>x. acct_id x = j) (upsert k e xs) = filter (\<lambda>x. acct_id x = j) xs"
  using assms by (induction xs) auto

lemma upsert_filter_same:
  assumes "acct_id e = k" and "distinct (map acct_id xs)"
  shows "filter (\<lambda>x. acct_id x = k) (upsert k e xs) = [e]"
  using assms
proof (induction xs)
  case Nil
  then show ?case by simp
next
  case (Cons x xs)
  show ?case
  proof (cases "acct_id x = k")
    case True
    with Cons.prems(2) have "k \<notin> acct_id ` set xs" by simp
    then have "\<forall>y\<in>set xs. acct_id y \<noteq> k" by blast
    then have "filter (\<lambda>x. acct_id x = k) xs = []" by (simp add: filter_empty_conv)
    with True Cons.prems(1) show ?thesis by simp
  next
    case False
    with Cons show ?thesis by simp
  qed
qed

lemma upsert_ids:
  assumes "acct_id e = k"
  shows "acct_id ` set (upsert k e xs) = insert k (acct_id ` set xs)"
  using assms by (induction xs) auto

lemma upsert_distinct:
  assumes "acct_id e = k" and "distinct (map acct_id xs)"
  shows "distinct (map acct_id (upsert k e xs))"
  using assms
proof (induction xs)
  case Nil
  then show ?case by simp
next
  case (Cons x xs)
  show ?case
  proof (cases "acct_id x = k")
    case True
    with Cons.prems show ?thesis by simp
  next
    case False
    with Cons upsert_ids [OF Cons.prems(1), of xs] show ?thesis by simp
  qed
qed


lemma ensureConfigDir_fields [simp]:
  "accounts_file (ensureConfigDir w) = accounts_file w"
  "key_file (ensureConfigDir w) = key_file w"
  "env_MCP_MASTER_KEY (ensureConfigDir w) = env_MCP_MASTER_KEY w"
  "console (ensureConfigDir w) = console w"
  by (simp_all add: ensureConfigDir_def)

lemma ensureConfigDir_resolvable [simp]:
  "key_resolvable (ensureConfigDir w) = key_resolvable w"
  "key_present (ensureConfigDir w) = key_present w"
  by (simp_all add: key_resolvable_def key_present_def)

lemma applyPreset_fields [simp]:
  "acct_id (applyPreset a) = acct_id a" "email (applyPreset a) = email a"
  "auth (applyPreset a) = auth a"
  by (simp_all add: applyPreset_def Let_def)

text \<open>The raw read at the head of \<open>addAccount\<close> is \<open>stored_accounts\<close>.\<close>

lemma raw_read:
  "(if existsSync (accounts_file w) then
      (case readFileSync (accounts_file w) of
         Inr (Accounts accounts) \<Rightarrow> accounts | Inr Unparseable \<Rightarrow> [] | Inl e \<Rightarrow> [])
    else []) = stored_accounts w"
  by (cases "accounts_file w") (auto simp: stored_accounts_def split: json_doc.splits)

lemma stored_accounts_ensure [simp]: "stored_accounts (ensureConfigDir w) = stored_accounts w"
  by (simp add: stored_accounts_def)

lemma addAccount_ok:
  assumes "addAccount L w a = (Inr u, w')"
  shows "\<exists>enc w2. encryptAccount L (ensureConfigDir w) (applyPreset a) = (Inr enc, w2) \<and>
           accounts_file w' = Readable (Accounts (upsert (acct_id a) enc (stored_accounts w))) \<and>
           (key_resolvable w \<longrightarrow> key_resolvable w')"
proof -
  obtain r w2 where e: "encryptAccount L (ensureConfigDir w) (applyPreset a) = (r, w2)"
    by (cases "encryptAccount L (ensureConfigDir w) (applyPreset a)")
  with assms obtain enc where r: "r = Inr enc"
    by (cases r) (auto simp: addAccount_def Let_def)
  from encryptAccount_result [OF e [unfolded r]]
  have k: "key_resolvable w \<longrightarrow> key_resolvable w2" by simp
  have up: "(case findIndex (\<lambda>x. acct_id x = acct_id a) (stored_accounts w) of
               Some i \<Rightarrow> (stored_accounts w)[i := enc] | None \<Rightarrow> stored_accounts w @ [enc]) =
            upsert (acct_id a) enc (stored_accounts w)"
    by (simp add: upsert_def)
  from assms e r have "w' = console_error
      (''[accounts] Saved account '' @ email a @ '' (credentials encrypted)'')
      (w2\<lparr>accounts_file := Readable (Accounts (upsert (acct_id a) enc (stored_accounts w)))\<rparr>)"
    unfolding addAccount_def Let_def raw_read
    by (simp only: stored_accounts_ensure applyPreset_fields prod.case sum.case up) simp
  with e r k show ?thesis
    by (simp add: console_error_def key_resolvable_def)
qed

lemma addAccount_error:
  assumes "addAccount L w a = (Inl err, w')"
  shows "accounts_file w' = accounts_file w"
proof -
  obtain r w2 where e: "encryptAccount L (ensureConfigDir w) (applyPreset a) = (r, w2)"
    by (cases "encryptAccount L (ensureConfigDir w) (applyPreset a)")
  with assms have "w' = w2" by (cases r) (auto simp: addAccount_def Let_def)
  with encryptAccount_keeps_accounts_file [of L "ensureConfigDir w" "applyPreset a"] e
  show ?thesis by simp
qed

lemma addAccount_returns:
  assumes "key_resolvable w"
  shows "\<exists>w'. addAccount L w a = (Inr (), w')"
proof -
  from assms have "key_resolvable (ensureConfigDir w)" by simp
  from encryptAccount_returns [OF this, of L "applyPreset a"]
  show ?thesis by (auto simp: addAccount_def Let_def)
qed


lemma findIndex_None: "\<forall>x\<in>set xs. \<not> p x \<Longrightarrow> findIndex p xs = None"
  by (induction xs) simp_all

lemma findIndex_first:
  assumes "i < length xs" and "p (xs ! i)" and "\<forall>j<i. \<not> p (xs ! j)"
  shows "findIndex p xs = Some i"
  using assms
proof (induction xs arbitrary: i)
  case Nil
  then show ?case by simp
next
  case (Cons x xs)
  show ?case
  proof (cases i)
    case 0
    with Cons.prems show ?thesis by simp
  next
    case (Suc n)
    with Cons.prems have "\<not> p x" by auto
    moreover from Suc Cons.prems have "findIndex p xs = Some n"
      by (intro Cons.IH) auto
    ultimately show ?thesis using Suc by simp
  qed
qed

lemma findIndex_distinct_id:
  assumes "distinct (map acct_id xs)" and "i < length xs" and "acct_id (xs ! i) = k"
  shows "findIndex (\<lambda>x. acct_id x = k) xs = Some i"
proof (rule findIndex_first [OF assms(2)])
  show "acct_id (xs ! i) = k" by (rule assms(3))
  show "\<forall>j<i. \<not> acct_id (xs ! j) = k"
  proof (intro allI impI notI)
    fix j assume j: "j < i" "acct_id (xs ! j) = k"
    from assms(1) have "\<forall>a<length xs. \<forall>b<length xs. a \<noteq> b \<longrightarrow>
        acct_id (xs ! a) \<noteq> acct_id (xs ! b)"
      by (simp add: distinct_conv_nth)
    with j assms(2,3) show False by force
  qed
qed

lemma stored_accounts_Readable:
  "accounts_file w = Readable (Accounts ds) \<Longrightarrow> stored_accounts w = ds"
  by (simp add: stored_accounts_def)

subsection \<open>Reads\<close>

lemma decryptAccount_loop_redact:
  "redact_auth (fst (decryptAccount_loop L em fs au w)) = redact_auth au"
proof (induction fs arbitrary: au w)
  case Nil
  then show ?case by simp
next
  case (Cons g fs)
  show ?case
  proof (cases "\<exists>v. get_field g au = Some v \<and> v \<noteq> [] \<and> isEncrypted v")
    case False
    then have "decryptAccount_loop L em (g # fs) au w = decryptAccount_loop L em fs au w"
      by (auto split: option.splits)
    with Cons.IH show ?thesis by simp
  next
    case True
    then obtain v where v: "get_field g au = Some v" "v \<noteq> []" "isEncrypted v" by blast
    obtain r1 w1 where e: "decrypt L w v = (r1, w1)" by (cases "decrypt L w v")
    with v Cons.IH [of "set_field g _ au"] Cons.IH [of au] show ?thesis
      by (cases r1) simp_all
  qed
qed

lemma decryptAccount_redact: "redact (fst (decryptAccount L w a)) = redact a"
proof -
  obtain au' w1 where l: "decryptAccount_loop L (email a) SENSITIVE_AUTH_FIELDS (auth a) w = (au', w1)"
    by (cases "decryptAccount_loop L (email a) SENSITIVE_AUTH_FIELDS (auth a) w")
  with decryptAccount_loop_redact [of L "email a" SENSITIVE_AUTH_FIELDS "auth a" w]
  have "redact_auth au' = redact_auth (auth a)" by simp
  with l show ?thesis by (simp add: decryptAccount_def redact_def)
qed

lemma decryptAll_redact: "map redact (fst (decryptAll L w as)) = map redact as"
proof (induction as arbitrary: w)
  case Nil
  then show ?case by simp
next
  case (Cons a as)
  obtain a' w1 where d: "decryptAccount L w a = (a', w1)" by (cases "decryptAccount L w a")
  with decryptAccount_redact [of L w a] have a: "redact a' = redact a" by simp
  obtain as' w2 where r: "decryptAll L w1 as = (as', w2)" by (cases "decryptAll L w1 as")
  with Cons.IH [of w1] have "map redact as' = map redact as" by simp
  with a d r show ?case by simp
qed

lemma getAccounts_redact:
  "map redact (fst (getAccounts L w)) = map redact (stored_accounts w)"
  by (cases "accounts_file w")
    (auto simp: getAccounts_def Let_def stored_accounts_def decryptAll_redact
      split: json_doc.splits)

lemma getAccounts_ids:
  "map acct_id (fst (getAccounts L w)) = map acct_id (stored_accounts w)"
proof -
  have "map acct_id xs = map (acct_id \<circ> redact) xs" for xs :: "account list"
    by (simp add: redact_def)
  then show ?thesis
    using getAccounts_redact [of L w] by (metis map_map)
qed

lemma find_None_ids: "(find (\<lambda>a. acct_id a = i) xs = None) = (i \<notin> set (map acct_id xs))"
  by (auto simp: find_None_iff)

lemma getAccount_None:
  "(fst (getAccount L w i) = None) = (i \<notin> acct_id ` set (stored_accounts w))"
  using getAccounts_ids [of L w]
  by (simp add: getAccount_def find_None_ids split: prod.splits) (metis fst_conv set_map)

text \<open>
  Claim C9. \<open>removeAccount\<close> returns \<open>True\<close> exactly when the file holds a document with a
  record of the identifier. Then the document written is the one read without the
  records of that identifier, \<open>getAccount\<close> of the identifier is absent afterwards and no
  account that \<open>getAccounts\<close> lists has it. When it returns \<open>False\<close> the world is unchanged.
\<close>

theorem removeAccount_result:
  "(fst (removeAccount w i) =
      (\<exists>ds. accounts_file w = Readable (Accounts ds) \<and> i \<in> acct_id ` set ds)) \<and>
   (fst (removeAccount w i) \<longrightarrow>
      (\<exists>ds. accounts_file w = Readable (Accounts ds) \<and>
         accounts_file (snd (removeAccount w i)) =
           Readable (Accounts (filter (\<lambda>a. acct_id a \<noteq> i) ds))) \<and>
      fst (getAccount L (snd (removeAccount w i)) i) = None \<and>
      i \<notin> acct_id ` set (fst (getAccounts L (snd (removeAccount w i))))) \<and>
   (\<not> fst (removeAccount w i) \<longrightarrow> snd (removeAccount w i) = w)"
proof -
  have len: "(length (filter (\<lambda>a. acct_id a \<noteq> i) ds) = length ds) = (i \<notin> acct_id ` set ds)"
    for ds :: "account list"
  proof (cases "i \<in> acct_id ` set ds")
    case True
    then obtain x where "x \<in> set ds" "\<not> acct_id x \<noteq> i" by auto
    then have "length (filter (\<lambda>a. acct_id a \<noteq> i) ds) < length ds"
      by (rule length_filter_less)
    with True show ?thesis by simp
  next
    case False
    then have "\<forall>x\<in>set ds. acct_id x \<noteq> i" by (metis imageI)
    then have "filter (\<lambda>a. acct_id a \<noteq> i) ds = ds" by (simp add: filter_id_conv)
    with False show ?thesis by simp
  qed
  show ?thesis
  proof (cases "\<exists>ds. accounts_file w = Readable (Accounts ds)")
    case False
    then have "removeAccount w i = (False, w)"
      by (cases "accounts_file w") (auto simp: removeAccount_def split: json_doc.splits)
    with False show ?thesis by auto
  next
    case True
    then obtain ds where ds: "accounts_file w = Readable (Accounts ds)" by blast
    show ?thesis
    proof (cases "i \<in> acct_id ` set ds")
      case False
      with ds len [of ds] have "removeAccount w i = (False, w)"
        by (simp add: removeAccount_def Let_def)
      with ds False show ?thesis by simp
    next
      case True
      let ?w = "console_error (''[accounts] Removed account '' @ i)
                  (w\<lparr>accounts_file := Readable (Accounts (filter (\<lambda>a. acct_id a \<noteq> i) ds))\<rparr>)"
      from True ds len [of ds] have r: "removeAccount w i = (True, ?w)"
        by (simp add: removeAccount_def Let_def)
      have s: "stored_accounts ?w = filter (\<lambda>a. acct_id a \<noteq> i) ds"
        by (simp add: stored_accounts_def console_error_def)
      have a: "i \<notin> acct_id ` set (stored_accounts ?w)" unfolding s by auto
      then have g: "fst (getAccount L ?w i) = None" by (simp add: getAccount_None)
      from a have l: "i \<notin> acct_id ` set (fst (getAccounts L ?w))"
        using getAccounts_ids [of L ?w] by (metis set_map)
      from r ds True g l show ?thesis by (simp add: console_error_def)
    qed
  qed
qed

theorem removeAccount_result_witness:
  "fst (removeAccount world_doc ''a-b-com'') \<and>
   accounts_file (snd (removeAccount world_doc ''a-b-com'')) = Readable (Accounts []) \<and>
   fst (getAccount toy_lib (snd (removeAccount world_doc ''a-b-com'')) ''a-b-com'') = None \<and>
   \<not> fst (removeAccount world_doc ''zzz'') \<and>
   snd (removeAccount world_doc ''zzz'') = world_doc"
proof -
  have f: "accounts_file world_doc = Readable (Accounts [sealed0])"
    by (simp add: world_doc_def world0_def)
  have i: "acct_id sealed0 = ''a-b-com''" by (simp add: sealed0_def account0_def)
  have yes: "\<exists>ds. accounts_file world_doc = Readable (Accounts ds) \<and>
                  ''a-b-com'' \<in> acct_id ` set ds"
    using f i by simp
  have no: "\<not> (\<exists>ds. accounts_file world_doc = Readable (Accounts ds) \<and>
                  ''zzz'' \<in> acct_id ` set ds)"
    using f i by simp
  from removeAccount_result [of world_doc "''a-b-com''" toy_lib] yes
  have 1: "fst (removeAccount world_doc ''a-b-com'')" by blast
  with removeAccount_result [of world_doc "''a-b-com''" toy_lib] f i
  have 2: "accounts_file (snd (removeAccount world_doc ''a-b-com'')) = Readable (Accounts [])"
    "fst (getAccount toy_lib (snd (removeAccount world_doc ''a-b-com'')) ''a-b-com'') = None"
    by auto
  from removeAccount_result [of world_doc "''zzz''" toy_lib] no
  have 3: "\<not> fst (removeAccount world_doc ''zzz'')" by blast
  with removeAccount_result [of world_doc "''zzz''" toy_lib]
  have 4: "snd (removeAccount world_doc ''zzz'') = world_doc" by blast
  from 1 2 3 4 show ?thesis by simp
qed

text \<open>
  Claim C10. When there is no accounts file, or the file holds text that does not parse,
  \<open>getAccounts\<close> returns the empty list, \<open>getAccount\<close> is absent, and \<open>removeAccount\<close>
  returns \<open>False\<close> in an unchanged world. A call of \<open>addAccount\<close> that returns leaves a
  document with one record, the incoming account (with its preset) with its sensitive
  fields in stored form; a call that throws leaves the file as it was; and the call
  returns whenever the master key is resolvable.
\<close>

theorem missing_or_unparseable_document_is_empty:
  assumes "accounts_file w = Absent \<or> accounts_file w = Readable Unparseable"
  shows "fst (getAccounts L w) = [] \<and>
         fst (getAccount L w i) = None \<and>
         removeAccount w i = (False, w) \<and>
         (\<forall>w1. addAccount L w a = (Inr (), w1) \<longrightarrow>
            (\<exists>enc. accounts_file w1 = Readable (Accounts [enc]) \<and>
               redact enc = redact (applyPreset a) \<and>
               (\<forall>f. stored_form L (get_field f (auth a)) (get_field f (auth enc))))) \<and>
         (\<forall>err w1. addAccount L w a = (Inl err, w1) \<longrightarrow> accounts_file w1 = accounts_file w) \<and>
         (key_resolvable w \<longrightarrow> (\<exists>w1. addAccount L w a = (Inr (), w1)))"
proof -
  from assms have s: "stored_accounts w = []" by (auto simp: stored_accounts_def)
  from assms have g: "fst (getAccounts L w) = []"
    by (auto simp: getAccounts_def Let_def)
  from s have ga: "fst (getAccount L w i) = None"
    by (simp add: getAccount_None)
  from assms have rm: "removeAccount w i = (False, w)"
    by (auto simp: removeAccount_def)
  have add: "\<exists>enc. accounts_file w1 = Readable (Accounts [enc]) \<and>
               redact enc = redact (applyPreset a) \<and>
               (\<forall>f. stored_form L (get_field f (auth a)) (get_field f (auth enc)))"
    if "addAccount L w a = (Inr (), w1)" for w1
  proof -
    from addAccount_ok [OF that] s obtain enc w2 where
      e: "encryptAccount L (ensureConfigDir w) (applyPreset a) = (Inr enc, w2)"
      and f: "accounts_file w1 = Readable (Accounts [enc])"
      by auto
    from encryptAccount_result [OF e] f show ?thesis by auto
  qed
  have err: "accounts_file w1 = accounts_file w" if "addAccount L w a = (Inl e, w1)" for e w1
    using that by (rule addAccount_error)
  have ret: "\<exists>w1. addAccount L w a = (Inr (), w1)" if "key_resolvable w"
    using that by (rule addAccount_returns)
  from g ga rm add err ret show ?thesis by blast
qed

theorem missing_or_unparseable_document_is_empty_witness:
  "fst (getAccounts toy_lib world0) = [] \<and>
   fst (getAccounts toy_lib world_bad) = [] \<and>
   fst (getAccount toy_lib world_bad ''a-b-com'') = None \<and>
   removeAccount world_bad ''a-b-com'' = (False, world_bad) \<and>
   (\<exists>w1 enc. addAccount toy_lib world_bad account0 = (Inr (), w1) \<and>
       accounts_file w1 = Readable (Accounts [enc]) \<and> acct_id enc = ''a-b-com'')"
proof -
  have a: "accounts_file world0 = Absent \<or> accounts_file world0 = Readable Unparseable"
    by (simp add: world0_def)
  have b: "accounts_file world_bad = Absent \<or> accounts_file world_bad = Readable Unparseable"
    by (simp add: world_bad_def world0_def)
  have k: "key_resolvable world_bad"
    by (simp add: key_resolvable_def world_bad_def world0_def env_value_def)
  note A = missing_or_unparseable_document_is_empty [OF a, of toy_lib "''a-b-com''" account0]
  note B = missing_or_unparseable_document_is_empty [OF b, of toy_lib "''a-b-com''" account0]
  from B k obtain w1 where w1: "addAccount toy_lib world_bad account0 = (Inr (), w1)" by blast
  with B obtain enc where enc: "accounts_file w1 = Readable (Accounts [enc])"
    "redact enc = redact (applyPreset account0)" by blast
  from enc(2) have "acct_id enc = ''a-b-com''"
    using redact_acct_id [of enc "applyPreset account0"] by (simp add: account0_def)
  with A B w1 enc(1) show ?thesis by blast
qed

subsection \<open>Reads when the master secret is there already\<close>

lemma getLocalMasterKey_present:
  assumes "key_present w"
    and "env_MCP_MASTER_KEY w1 = env_MCP_MASTER_KEY w" and "key_file w1 = key_file w"
  shows "getLocalMasterKey L w1 = (fst (getLocalMasterKey L w), w1)"
  using assms by (simp add: getLocalMasterKey_def key_present_def split: sum.splits)

lemma decrypt_present:
  assumes "key_present w"
    and "env_MCP_MASTER_KEY w1 = env_MCP_MASTER_KEY w" and "key_file w1 = key_file w"
  shows "decrypt L w1 v = (fst (decrypt L w v), w1)"
proof -
  define r where "r = fst (getLocalMasterKey L w)"
  have k1: "getLocalMasterKey L w1 = (r, w1)"
    unfolding r_def using assms by (rule getLocalMasterKey_present)
  have k0: "getLocalMasterKey L w = (r, w)"
    unfolding r_def using getLocalMasterKey_present [OF assms(1), of w L] by simp
  show ?thesis
    by (cases r) (simp_all add: decrypt_def decryptLocal_def k0 k1 Let_def split: option.splits)
qed

lemma field_after_read_plain:
  "\<not> (\<exists>v. x = Some v \<and> v \<noteq> [] \<and> isEncrypted v) \<Longrightarrow> field_after_read L w x = x"
  by (auto simp: field_after_read_def split: option.splits)

lemma field_fails_plain:
  "\<not> (\<exists>v. x = Some v \<and> v \<noteq> [] \<and> isEncrypted v) \<Longrightarrow> \<not> field_fails L w x"
  by (auto simp: field_fails_def split: option.splits)

lemma decryptAccount_loop_present:
  assumes "key_present w0"
    and "env_MCP_MASTER_KEY w = env_MCP_MASTER_KEY w0" and "key_file w = key_file w0"
    and "distinct fs"
    and "decryptAccount_loop L em fs au w = (au', w')"
  shows "env_MCP_MASTER_KEY w' = env_MCP_MASTER_KEY w0 \<and> key_file w' = key_file w0 \<and>
         accounts_file w' = accounts_file w \<and>
         set (console w) \<subseteq> set (console w') \<and>
         (\<forall>f. get_field f au' =
               (if f \<in> set fs then field_after_read L w0 (get_field f au) else get_field f au)) \<and>
         (\<forall>f. f \<in> set fs \<and> field_fails L w0 (get_field f au) \<longrightarrow>
               (''[accounts] Failed to decrypt '' @ key_name f @ '' for '' @ em)
                 \<in> set (console w'))"
  using assms(2-)
proof (induction fs arbitrary: au w)
  case Nil
  then show ?case by simp
next
  case (Cons g fs)
  from Cons.prems have d: "distinct fs" "g \<notin> set fs" by simp_all
  show ?case
  proof (cases "\<exists>v. get_field g au = Some v \<and> v \<noteq> [] \<and> isEncrypted v")
    case False
    then have "decryptAccount_loop L em (g # fs) au w = decryptAccount_loop L em fs au w"
      by (auto split: option.splits)
    with Cons.prems have r: "decryptAccount_loop L em fs au w = (au', w')" by simp
    note ih = Cons.IH [OF Cons.prems(1,2) d(1) r]
    from False have p: "field_after_read L w0 (get_field g au) = get_field g au"
      "\<not> field_fails L w0 (get_field g au)"
      by (simp_all add: field_after_read_plain field_fails_plain)
    have fields: "get_field f au' =
        (if f \<in> set (g # fs) then field_after_read L w0 (get_field f au) else get_field f au)"
      for f
    proof -
      from ih have "get_field f au' =
        (if f \<in> set fs then field_after_read L w0 (get_field f au) else get_field f au)"
        by blast
      with d(2) p(1) show ?thesis by (cases "f = g") simp_all
    qed
    have fails: "(''[accounts] Failed to decrypt '' @ key_name f @ '' for '' @ em)
                 \<in> set (console w')"
      if "f \<in> set (g # fs) \<and> field_fails L w0 (get_field f au)" for f
    proof -
      from that p(2) have "f \<in> set fs \<and> field_fails L w0 (get_field f au)" by auto
      with ih show ?thesis by blast
    qed
    from ih fields fails show ?thesis by blast
  next
    case True
    then obtain v where v: "get_field g au = Some v" "v \<noteq> []" "isEncrypted v" by blast
    have dec: "decrypt L w v = (fst (decrypt L w0 v), w)"
      using assms(1) Cons.prems(1,2) by (rule decrypt_present)
    show ?thesis
    proof (cases "fst (decrypt L w0 v)")
      case (Inr p)
      with v dec Cons.prems
      have r: "decryptAccount_loop L em fs (set_field g p au) w = (au', w')" by simp
      note ih = Cons.IH [OF Cons.prems(1,2) d(1) r]
      from v Inr have p: "field_after_read L w0 (get_field g au) = Some p"
        "\<not> field_fails L w0 (get_field g au)"
        by (simp_all add: field_after_read_def field_fails_def)
      have fields: "get_field f au' =
          (if f \<in> set (g # fs) then field_after_read L w0 (get_field f au) else get_field f au)"
        for f
      proof -
        from ih have "get_field f au' =
          (if f \<in> set fs then field_after_read L w0 (get_field f (set_field g p au))
           else get_field f (set_field g p au))"
          by blast
        with d(2) p(1) show ?thesis by (cases "f = g") (simp_all add: get_set_field)
      qed
      have fails: "(''[accounts] Failed to decrypt '' @ key_name f @ '' for '' @ em)
                   \<in> set (console w')"
        if "f \<in> set (g # fs) \<and> field_fails L w0 (get_field f au)" for f
      proof -
        from that p(2) have "f \<in> set fs" "f \<noteq> g" "field_fails L w0 (get_field f au)"
          using d(2) by auto
        then have "f \<in> set fs \<and> field_fails L w0 (get_field f (set_field g p au))"
          by (simp add: get_set_field)
        with ih show ?thesis by blast
      qed
      from ih fields fails show ?thesis by blast
    next
      case (Inl err)
      let ?line = "''[accounts] Failed to decrypt '' @ key_name g @ '' for '' @ em"
      let ?w = "console_error ?line w"
      from Inl v dec Cons.prems
      have r: "decryptAccount_loop L em fs au ?w = (au', w')" by simp
      have same: "env_MCP_MASTER_KEY ?w = env_MCP_MASTER_KEY w0" "key_file ?w = key_file w0"
        using Cons.prems(1,2) by (simp_all add: console_error_def)
      note ih = Cons.IH [OF same d(1) r]
      have con: "set (console w) \<subseteq> set (console w')" "?line \<in> set (console w')"
        "accounts_file w' = accounts_file w"
        using ih by (auto simp: console_error_def)
      from v Inl have p: "field_after_read L w0 (get_field g au) = get_field g au"
        by (simp add: field_after_read_def)
      have fields: "get_field f au' =
          (if f \<in> set (g # fs) then field_after_read L w0 (get_field f au) else get_field f au)"
        for f
      proof -
        from ih have "get_field f au' =
          (if f \<in> set fs then field_after_read L w0 (get_field f au) else get_field f au)"
          by blast
        with d(2) p show ?thesis by (cases "f = g") simp_all
      qed
      have fails: "(''[accounts] Failed to decrypt '' @ key_name f @ '' for '' @ em)
                   \<in> set (console w')"
        if "f \<in> set (g # fs) \<and> field_fails L w0 (get_field f au)" for f
      proof (cases "f = g")
        case True
        with con(2) show ?thesis by simp
      next
        case False
        with that have "f \<in> set fs \<and> field_fails L w0 (get_field f au)" by simp
        with ih show ?thesis by blast
      qed
      from ih con fields fails show ?thesis by blast
    qed
  qed
qed


lemma auth_from_fields:
  assumes "redact_auth x = redact_auth y"
  shows "x = y\<lparr>password := password x, accessToken := accessToken x,
               refreshToken := refreshToken x, clientSecret := clientSecret x\<rparr>"
  using assms by (cases x; cases y) (simp add: redact_auth_def)

lemma get_field_after_read:
  "get_field f (auth (account_after_read L w a)) = field_after_read L w (get_field f (auth a))"
  by (cases f) (simp_all add: account_after_read_def)

lemma decryptAccount_present:
  assumes "key_present w0"
    and "env_MCP_MASTER_KEY w = env_MCP_MASTER_KEY w0" and "key_file w = key_file w0"
    and "decryptAccount L w a = (a', w')"
  shows "a' = account_after_read L w0 a \<and>
         env_MCP_MASTER_KEY w' = env_MCP_MASTER_KEY w0 \<and> key_file w' = key_file w0 \<and>
         set (console w) \<subseteq> set (console w') \<and>
         (\<forall>f. field_fails L w0 (get_field f (auth a)) \<longrightarrow>
               (''[accounts] Failed to decrypt '' @ key_name f @ '' for '' @ email a)
                 \<in> set (console w'))"
proof -
  from assms(4) obtain au' where
    l: "decryptAccount_loop L (email a) SENSITIVE_AUTH_FIELDS (auth a) w = (au', w')"
    and a': "a' = a\<lparr>auth := au'\<rparr>"
    by (auto simp: decryptAccount_def split: prod.splits)
  note loop = decryptAccount_loop_present [OF assms(1-3) distinct_fields l]
  from loop have f: "get_field f au' = field_after_read L w0 (get_field f (auth a))" for f
    by (simp add: all_fields)
  from decryptAccount_loop_redact [of L "email a" SENSITIVE_AUTH_FIELDS "auth a" w] l
  have "redact_auth au' = redact_auth (auth a)" by simp
  from auth_from_fields [OF this] f [of K_password] f [of K_accessToken]
    f [of K_refreshToken] f [of K_clientSecret]
  have "au' = auth (account_after_read L w0 a)" by (simp add: account_after_read_def)
  with a' have "a' = account_after_read L w0 a" by (simp add: account_after_read_def)
  with loop show ?thesis by (simp add: all_fields)
qed

lemma decryptAll_present:
  assumes "key_present w0"
    and "env_MCP_MASTER_KEY w = env_MCP_MASTER_KEY w0" and "key_file w = key_file w0"
    and "decryptAll L w ds = (rs, w')"
  shows "rs = map (account_after_read L w0) ds \<and>
         set (console w) \<subseteq> set (console w') \<and>
         (\<forall>d\<in>set ds. \<forall>f. field_fails L w0 (get_field f (auth d)) \<longrightarrow>
               (''[accounts] Failed to decrypt '' @ key_name f @ '' for '' @ email d)
                 \<in> set (console w'))"
  using assms(2-)
proof (induction ds arbitrary: w rs w')
  case Nil
  then show ?case by simp
next
  case (Cons d ds)
  obtain d' w1 where h: "decryptAccount L w d = (d', w1)" by (cases "decryptAccount L w d")
  obtain rs' w2 where t: "decryptAll L w1 ds = (rs', w2)" by (cases "decryptAll L w1 ds")
  from Cons.prems(3) h t have res: "rs = d' # rs'" "w' = w2" by simp_all
  note hd = decryptAccount_present [OF assms(1) Cons.prems(1,2) h]
  from hd have same: "env_MCP_MASTER_KEY w1 = env_MCP_MASTER_KEY w0" "key_file w1 = key_file w0"
    by simp_all
  note tl = Cons.IH [OF same t]
  from hd tl have c: "set (console w) \<subseteq> set (console w2)" "set (console w1) \<subseteq> set (console w2)"
    by auto
  have lines: "(''[accounts] Failed to decrypt '' @ key_name f @ '' for '' @ email x)
                 \<in> set (console w2)"
    if "x \<in> set (d # ds)" "field_fails L w0 (get_field f (auth x))" for x f
  proof (cases "x = d")
    case True
    with hd that(2) c(2) show ?thesis by blast
  next
    case False
    with that tl show ?thesis by auto
  qed
  from hd tl res c(1) lines show ?case by auto
qed

lemma getAccounts_present:
  assumes "key_present w"
  shows "fst (getAccounts L w) = map (account_after_read L w) (stored_accounts w) \<and>
         (\<forall>d\<in>set (stored_accounts w). \<forall>f. field_fails L w (get_field f (auth d)) \<longrightarrow>
               (''[accounts] Failed to decrypt '' @ key_name f @ '' for '' @ email d)
                 \<in> set (console (snd (getAccounts L w))))"
proof (cases "\<exists>ds. accounts_file w = Readable (Accounts ds)")
  case False
  then have "fst (getAccounts L w) = []" "stored_accounts w = []"
    by (cases "accounts_file w"; auto simp: getAccounts_def Let_def stored_accounts_def
        split: json_doc.splits)+
  then show ?thesis by simp
next
  case True
  then obtain ds where ds: "accounts_file w = Readable (Accounts ds)" by blast
  obtain rs w' where r: "decryptAll L (ensureConfigDir w) ds = (rs, w')"
    by (cases "decryptAll L (ensureConfigDir w) ds")
  from ds r have g: "getAccounts L w = (rs, w')" by (simp add: getAccounts_def Let_def)
  have "env_MCP_MASTER_KEY (ensureConfigDir w) = env_MCP_MASTER_KEY w"
    "key_file (ensureConfigDir w) = key_file w" by simp_all
  from decryptAll_present [OF assms this r] g ds show ?thesis
    by (simp add: stored_accounts_def)
qed

lemma field_fails_keeps: "field_fails L w (Some v) \<Longrightarrow> field_after_read L w (Some v) = Some v"
  by (auto simp: field_fails_def field_after_read_def split: sum.splits)

text \<open>
  Claim C1, as amended. Let the accounts file hold the records \<open>docs\<close>. \<open>getAccounts\<close>
  returns one record for each, in order, equal to the stored one outside the four
  sensitive fields. When a master secret is there already, each returned record is the
  stored one with every sensitive field read on its own (\<open>account_after_read\<close>): a field
  whose decryption fails is returned as it is stored, the ciphertext, not empty, the
  other sensitive fields are returned decrypted, and a line for every failing field is
  on the console.
\<close>

theorem getAccounts_keeps_record_with_failed_field:
  assumes "accounts_file w = Readable (Accounts docs)"
  shows "map redact (fst (getAccounts L w)) = map redact docs \<and>
    (key_present w \<longrightarrow>
       fst (getAccounts L w) = map (account_after_read L w) docs \<and>
       (\<forall>i<length docs. \<forall>f v.
          get_field f (auth (docs ! i)) = Some v \<and> field_fails L w (Some v) \<longrightarrow>
            get_field f (auth (fst (getAccounts L w) ! i)) = Some v \<and>
            (''[accounts] Failed to decrypt '' @ key_name f @ '' for '' @ email (docs ! i))
               \<in> set (console (snd (getAccounts L w)))))"
proof -
  from assms have s: "stored_accounts w = docs" by (rule stored_accounts_Readable)
  have 1: "map redact (fst (getAccounts L w)) = map redact docs"
    using getAccounts_redact [of L w] s by simp
  have 2: "fst (getAccounts L w) = map (account_after_read L w) docs \<and>
       (\<forall>i<length docs. \<forall>f v.
          get_field f (auth (docs ! i)) = Some v \<and> field_fails L w (Some v) \<longrightarrow>
            get_field f (auth (fst (getAccounts L w) ! i)) = Some v \<and>
            (''[accounts] Failed to decrypt '' @ key_name f @ '' for '' @ email (docs ! i))
               \<in> set (console (snd (getAccounts L w))))"
    if k: "key_present w"
  proof -
    note g = getAccounts_present [OF k, of L, unfolded s]
    have "get_field f (auth (fst (getAccounts L w) ! i)) = Some v \<and>
            (''[accounts] Failed to decrypt '' @ key_name f @ '' for '' @ email (docs ! i))
               \<in> set (console (snd (getAccounts L w)))"
      if "i < length docs" "get_field f (auth (docs ! i)) = Some v" "field_fails L w (Some v)"
      for i f v
    proof -
      from that(1) have m: "docs ! i \<in> set docs" by simp
      from g that(1) have "fst (getAccounts L w) ! i = account_after_read L w (docs ! i)"
        by simp
      then have "get_field f (auth (fst (getAccounts L w) ! i)) = Some v"
        using that(2,3) by (simp add: get_field_after_read field_fails_keeps)
      moreover from g m that(2,3)
      have "(''[accounts] Failed to decrypt '' @ key_name f @ '' for '' @ email (docs ! i))
               \<in> set (console (snd (getAccounts L w)))"
        by simp
      ultimately show ?thesis by simp
    qed
    with g show ?thesis by blast
  qed
  from 1 2 show ?thesis by blast
qed

lemma world_doc_facts:
  "accounts_file world_doc = Readable (Accounts [sealed0])" "key_present world_doc"
  "getLocalMasterKey toy_lib world_doc = (Inr (''s3cret'', SALT, 32), world_doc)"
  by (simp_all add: world_doc_def world0_def key_present_def env_value_def
      getLocalMasterKey_def toy_lib_def KEY_LENGTH_def)

lemma decrypt_world_doc:
  "fst (decrypt toy_lib world_doc ''enc:local:rrrrrrrrrrrrrrrr:terc3sSecret1rrr:Secret1'') =
     Inr ''Secret1''"
  "fst (decrypt toy_lib world_doc ''enc:local:garbage'') = Inl InvalidLocalEncryptedFormat"
  by (simp_all add: decrypt_def decryptLocal_def isEncrypted_def startsWith_def PREFIX_LOCAL_def
      world_doc_facts(3)) (simp_all add: toy_lib_def toy_tag_def)

lemma tagged_examples:
  "isEncrypted ''enc:local:rrrrrrrrrrrrrrrr:terc3sSecret1rrr:Secret1''"
  "isEncrypted ''enc:local:garbage''"
  by (simp_all add: isEncrypted_def startsWith_def PREFIX_LOCAL_def)

theorem getAccounts_keeps_record_with_failed_field_witness:
  "fst (getAccounts toy_lib world_doc) =
     [account0\<lparr>auth := (auth account0)
        \<lparr>password := Some ''Secret1'', refreshToken := Some ''enc:local:garbage''\<rparr>\<rparr>] \<and>
   ''[accounts] Failed to decrypt refreshToken for a@b.com''
      \<in> set (console (snd (getAccounts toy_lib world_doc)))"
proof -
  note t = getAccounts_keeps_record_with_failed_field [OF world_doc_facts(1), of toy_lib]
  have r: "account_after_read toy_lib world_doc sealed0 =
     account0\<lparr>auth := (auth account0)
        \<lparr>password := Some ''Secret1'', refreshToken := Some ''enc:local:garbage''\<rparr>\<rparr>"
    by (simp add: account_after_read_def field_after_read_def sealed0_def account0_def
        decrypt_world_doc tagged_examples)
  have f: "get_field K_refreshToken (auth ([sealed0] ! 0)) = Some ''enc:local:garbage''"
    "field_fails toy_lib world_doc (Some ''enc:local:garbage'')"
    "email ([sealed0] ! 0) = ''a@b.com''"
    by (simp_all add: sealed0_def account0_def field_fails_def decrypt_world_doc tagged_examples)
  from t world_doc_facts(2) r
  have 1: "fst (getAccounts toy_lib world_doc) =
     [account0\<lparr>auth := (auth account0)
        \<lparr>password := Some ''Secret1'', refreshToken := Some ''enc:local:garbage''\<rparr>\<rparr>]"
    by simp
  from t world_doc_facts(2) have A: "\<forall>i<length [sealed0]. \<forall>f v.
          get_field f (auth ([sealed0] ! i)) = Some v \<and> field_fails toy_lib world_doc (Some v) \<longrightarrow>
            (''[accounts] Failed to decrypt '' @ key_name f @ '' for '' @ email ([sealed0] ! i))
               \<in> set (console (snd (getAccounts toy_lib world_doc)))"
    by blast
  have "(''[accounts] Failed to decrypt '' @ key_name K_refreshToken @ '' for '' @
       email ([sealed0] ! 0)) \<in> set (console (snd (getAccounts toy_lib world_doc)))"
    by (rule A [rule_format, of 0 K_refreshToken "''enc:local:garbage''"]) (simp_all add: f(2) sealed0_def account0_def)
  then have 2: "''[accounts] Failed to decrypt refreshToken for a@b.com''
      \<in> set (console (snd (getAccounts toy_lib world_doc)))"
    by (simp add: sealed0_def account0_def)
  from 1 2 show ?thesis by simp
qed

text \<open>
  Claim C1 as stated fails: the stored record has a valid ciphertext as password and a
  tagged value that is no ciphertext as refresh token. The record is returned, the
  password decrypted, and the refresh token is the stored value, not an empty field.
\<close>

theorem failed_field_not_emptied_counterexample:
  "length (fst (getAccounts toy_lib world_doc)) = 1 \<and>
   fst (decrypt toy_lib world_doc ''enc:local:garbage'') = Inl InvalidLocalEncryptedFormat \<and>
   refreshToken (auth (fst (getAccounts toy_lib world_doc) ! 0)) = Some ''enc:local:garbage'' \<and>
   password (auth (fst (getAccounts toy_lib world_doc) ! 0)) = Some ''Secret1''"
proof -
  have "fst (getAccounts toy_lib world_doc) = [account_after_read toy_lib world_doc sealed0]"
    using getAccounts_present [OF world_doc_facts(2), of toy_lib]
    by (simp add: stored_accounts_Readable [OF world_doc_facts(1)])
  then show ?thesis
    by (simp add: account_after_read_def field_after_read_def sealed0_def account0_def
        decrypt_world_doc tagged_examples)
qed

subsection \<open>The invariant of the document\<close>








subsection \<open>Provider presets\<close>

lemma applyPreset_keeps_supplied:
  "imap a = Some i \<Longrightarrow> imap (applyPreset a) = Some i"
  "smtp a = Some s \<Longrightarrow> smtp (applyPreset a) = Some s"
  "imap a = None \<Longrightarrow> imap (applyPreset a) = Some (preset_imap (PROVIDER_PRESETS (provider a)))"
  "smtp a = None \<Longrightarrow> smtp (applyPreset a) = Some (preset_smtp (PROVIDER_PRESETS (provider a)))"
  by (simp_all add: applyPreset_def Let_def)

lemma applyPreset_build_account: "applyPreset (build_account args) = build_account args"
  by (simp add: applyPreset_def build_account_def Let_def)

lemma build_account_gmail:
  "build_account args_gmail =
     \<lparr>acct_id = ''alice-gmail-com'', email = ''alice@gmail.com'', name = Some ''alice'',
      provider = Gmail, enabled = True,
      imap = Some \<lparr>imap_host = [], imap_port = 993, imap_tls = True\<rparr>,
      smtp = Some \<lparr>smtp_host = [], smtp_port = 587, smtp_secure = False\<rparr>,
      auth = \<lparr>auth_type = PasswordAuth, user = ''alice@gmail.com'', password = Some ''pw'',
              accessToken = None, refreshToken = None, clientId = None,
              clientSecret = None, tokenExpiry = None\<rparr>,
      sync = None\<rparr>"
  by (simp add: build_account_def args_gmail_def Let_def toLowerCase_def is_alnum_def
      or_str_def or_num_def detectProvider_def domainMap_def)

text \<open>
  Claim C8: what the code does with the account that the tool builds. For the arguments
  \<^verbatim>\<open>{email: "alice@gmail.com", password: "pw"}\<close> the provider is detected as Gmail, whose
  preset has the hosts \<open>imap.gmail.com\<close> and \<open>smtp.gmail.com\<close>; \<open>addAccount\<close> of the account
  built from them returns; and the one record it stores has the empty string as IMAP host
  and as SMTP host. For every account that the tool builds, the preset merge changes
  nothing.
\<close>

theorem preset_not_applied_to_tool_account:
  "applyPreset (build_account args) = build_account args \<and>
   provider (build_account args_gmail) = Gmail \<and>
   imap_host (preset_imap (PROVIDER_PRESETS Gmail)) = ''imap.gmail.com'' \<and>
   smtp_host (preset_smtp (PROVIDER_PRESETS Gmail)) = ''smtp.gmail.com'' \<and>
   fst (addAccount toy_lib world0 (build_account args_gmail)) = Inr () \<and>
   map imap (stored_accounts (snd (addAccount toy_lib world0 (build_account args_gmail)))) =
     [Some \<lparr>imap_host = [], imap_port = 993, imap_tls = True\<rparr>] \<and>
   map smtp (stored_accounts (snd (addAccount toy_lib world0 (build_account args_gmail)))) =
     [Some \<lparr>smtp_host = [], smtp_port = 587, smtp_secure = False\<rparr>]"
proof -
  have k: "key_resolvable world0"
    by (simp add: key_resolvable_def world0_def env_value_def)
  from addAccount_returns [OF k, of toy_lib "build_account args_gmail"]
  obtain w1 where c: "addAccount toy_lib world0 (build_account args_gmail) = (Inr (), w1)"
    by blast
  from addAccount_ok [OF c] obtain enc where
    e: "redact enc = redact (applyPreset (build_account args_gmail))"
    and f: "accounts_file w1 =
      Readable (Accounts (upsert (acct_id (build_account args_gmail)) enc (stored_accounts world0)))"
    using encryptAccount_result by blast
  have s0: "stored_accounts world0 = []" by (simp add: stored_accounts_def world0_def)
  from f s0 have s1: "stored_accounts w1 = [enc]" by (simp add: stored_accounts_def)
  have "imap (redact a) = imap a \<and> smtp (redact a) = smtp a" for a
    by (simp add: redact_def)
  with e have "imap enc = imap (build_account args_gmail)"
    "smtp enc = smtp (build_account args_gmail)"
    by (metis applyPreset_build_account)+
  then have m: "imap enc = Some \<lparr>imap_host = [], imap_port = 993, imap_tls = True\<rparr>"
    "smtp enc = Some \<lparr>smtp_host = [], smtp_port = 587, smtp_secure = False\<rparr>"
    by (simp_all add: build_account_gmail)
  have p: "provider (build_account args_gmail) = Gmail" by (simp add: build_account_gmail)
  from c s1 m p show ?thesis
    by (simp add: applyPreset_build_account mk_preset_def)
qed

subsection \<open>Worlds that keep the secret\<close>

lemma keeps_secret_refl [simp]: "keeps_secret w w"
  by (simp add: keeps_secret_def)

lemma keeps_secret_trans:
  "keeps_secret w w1 \<Longrightarrow> keeps_secret w1 w2 \<Longrightarrow> keeps_secret w w2"
  by (auto simp: keeps_secret_def)

lemma keeps_secret_simple [simp]:
  "keeps_secret w (ensureConfigDir w)"
  "keeps_secret w (console_error line w)"
  "keeps_secret w (snd (randomBytes n w))"
  "keeps_secret w (w\<lparr>accounts_file := f\<rparr>)"
  by (simp_all add: keeps_secret_def ensureConfigDir_def console_error_def randomBytes_def)

lemma getLocalMasterKey_keeps_secret: "keeps_secret w (snd (getLocalMasterKey L w))"
  by (cases "key_file w")
    (simp_all add: getLocalMasterKey_def keeps_secret_def Let_def randomBytes_def
      console_error_def ensureConfigDir_def split: prod.splits)

lemma encrypt_keeps_secret:
  assumes "encrypt L w v = (r, w1)"
  shows "keeps_secret w w1"
proof (cases "v = [] \<or> isEncrypted v")
  case True
  with assms show ?thesis by (auto simp: encrypt_def)
next
  case False
  obtain r0 w0 where g: "getLocalMasterKey L w = (r0, w0)" by (cases "getLocalMasterKey L w")
  with getLocalMasterKey_keeps_secret [of w L] have k: "keeps_secret w w0" by simp
  from assms False g have "w1 = w0 \<or> w1 = snd (randomBytes IV_LENGTH w0)"
    by (cases r0) (auto simp: encrypt_def encryptLocal_def Let_def split: prod.splits)
  with k show ?thesis by (auto intro: keeps_secret_trans)
qed


lemma ciphertext_of_mono:
  assumes "keeps_secret w0 w" and "ciphertext_of L w p c"
  shows "ciphertext_of L w0 p c"
proof -
  from assms(2) obtain w1 k iv where
    h: "keeps_secret w w1" "fst (getLocalMasterKey L w1) = Inr k" "length iv = IV_LENGTH"
      "c = PREFIX_LOCAL @ toBase64 L iv @ '':'' @ toBase64 L (snd (cipher L k iv p)) @ '':'' @
              fst (cipher L k iv p)"
    unfolding ciphertext_of_def by blast
  from assms(1) h(1) have "keeps_secret w0 w1" by (rule keeps_secret_trans)
  with h(2-) show ?thesis unfolding ciphertext_of_def by blast
qed

lemma stored_secret_mono:
  "keeps_secret w0 w \<Longrightarrow> stored_secret L w x y \<Longrightarrow> stored_secret L w0 x y"
  by (auto simp: stored_secret_def split: option.splits if_splits intro: ciphertext_of_mono)

lemma encrypt_ciphertext_of:
  assumes "encrypt L w v = (Inr c, w1)" and "v \<noteq> []" and "\<not> isEncrypted v"
  shows "ciphertext_of L w v c"
proof -
  from assms have l: "encryptLocal L w v = (Inr c, w1)" by (simp add: encrypt_def)
  obtain r0 w0 where g: "getLocalMasterKey L w = (r0, w0)" by (cases "getLocalMasterKey L w")
  with l obtain k where k: "r0 = Inr k" by (cases r0) (auto simp: encryptLocal_def)
  define iv where "iv = fst (randomBytes IV_LENGTH w0)"
  from l g k have c: "c = PREFIX_LOCAL @ toBase64 L iv @ '':'' @
      toBase64 L (snd (cipher L k iv v)) @ '':'' @ fst (cipher L k iv v)"
    by (simp add: encryptLocal_def Let_def iv_def split: prod.splits)
  have len: "length iv = IV_LENGTH" by (simp add: iv_def randomBytes_def)
  from g k have "fst (getLocalMasterKey L w) = Inr k" by simp
  with c len show ?thesis
    unfolding ciphertext_of_def by (intro exI [of _ w] exI [of _ k] exI [of _ iv]) simp
qed

lemma encryptAccount_loop_secret:
  assumes "encryptAccount_loop L fs au w = (Inr au', w')" and "distinct fs"
  shows "keeps_secret w w' \<and>
         (\<forall>f. if f \<in> set fs then stored_secret L w (get_field f au) (get_field f au')
               else get_field f au' = get_field f au)"
  using assms
proof (induction fs arbitrary: au w)
  case Nil
  then show ?case by simp
next
  case (Cons g fs)
  from Cons.prems have d: "distinct fs" "g \<notin> set fs" by simp_all
  show ?case
  proof (cases "\<exists>v. get_field g au = Some v \<and> v \<noteq> [] \<and> \<not> isEncrypted v")
    case False
    then have step: "encryptAccount_loop L (g # fs) au w = encryptAccount_loop L fs au w"
      by (auto split: option.splits)
    from False have sf: "stored_secret L w (get_field g au) (get_field g au)"
      by (auto simp: stored_secret_def split: option.splits)
    from Cons.prems step have r: "encryptAccount_loop L fs au w = (Inr au', w')" by simp
    note ih = Cons.IH [OF r d(1)]
    have "if f \<in> set (g # fs) then stored_secret L w (get_field f au) (get_field f au')
               else get_field f au' = get_field f au" for f
    proof -
      from ih have "if f \<in> set fs then stored_secret L w (get_field f au) (get_field f au')
               else get_field f au' = get_field f au" by blast
      with d(2) sf show ?thesis by (cases "f = g"; cases "f \<in> set fs") simp_all
    qed
    with ih show ?thesis by blast
  next
    case True
    then obtain v where v: "get_field g au = Some v" "v \<noteq> []" "\<not> isEncrypted v" by blast
    obtain r1 w1 where e: "encrypt L w v = (r1, w1)" by (cases "encrypt L w v")
    with Cons.prems(1) v obtain c where c: "r1 = Inr c" by (cases r1) auto
    with Cons.prems(1) v e
    have r: "encryptAccount_loop L fs (set_field g c au) w1 = (Inr au', w')" by simp
    from encrypt_ciphertext_of [OF e [unfolded c] v(2,3)] v
    have sf: "stored_secret L w (get_field g au) (Some c)" by (simp add: stored_secret_def)
    note k1 = encrypt_keeps_secret [OF e]
    note ih = Cons.IH [OF r d(1)]
    from ih k1 have k: "keeps_secret w w'" by (blast intro: keeps_secret_trans)
    have "if f \<in> set (g # fs) then stored_secret L w (get_field f au) (get_field f au')
               else get_field f au' = get_field f au" for f
    proof -
      from ih have ihf: "if f \<in> set fs
          then stored_secret L w1 (get_field f (set_field g c au)) (get_field f au')
          else get_field f au' = get_field f (set_field g c au)"
        by blast
      show ?thesis
      proof (cases "f = g")
        case True
        with ihf d(2) have "get_field f au' = Some c"
          by (cases "f \<in> set fs") (simp_all add: get_set_field)
        with True sf show ?thesis by simp
      next
        case False
        show ?thesis
        proof (cases "f \<in> set fs")
          case True
          with ihf False have "stored_secret L w1 (get_field f au) (get_field f au')"
            by (simp add: get_set_field)
          with k1 have "stored_secret L w (get_field f au) (get_field f au')"
            by (rule stored_secret_mono)
          with True show ?thesis by simp
        next
          case nin: False
          with ihf False show ?thesis by (simp add: get_set_field)
        qed
      qed
    qed
    with k show ?thesis by blast
  qed
qed

lemma encryptAccount_secret:
  assumes "encryptAccount L w a = (Inr enc, w')"
  shows "keeps_secret w w' \<and>
         (\<forall>f. stored_secret L w (get_field f (auth a)) (get_field f (auth enc)))"
proof -
  from assms obtain au' where
    l: "encryptAccount_loop L SENSITIVE_AUTH_FIELDS (auth a) w = (Inr au', w')"
    and enc: "enc = a\<lparr>auth := au'\<rparr>"
    by (auto simp: encryptAccount_def split: prod.splits sum.splits)
  from encryptAccount_loop_secret [OF l distinct_fields] enc show ?thesis
    by (simp add: all_fields)
qed

lemma addAccount_secret:
  assumes "addAccount L w a = (Inr u, w')"
  shows "keeps_secret w w' \<and>
         (\<exists>enc. accounts_file w' = Readable (Accounts (upsert (acct_id a) enc (stored_accounts w))) \<and>
            redact enc = redact (applyPreset a) \<and>
            (\<forall>f. stored_secret L w (get_field f (auth a)) (get_field f (auth enc))))"
proof -
  obtain r w2 where e: "encryptAccount L (ensureConfigDir w) (applyPreset a) = (r, w2)"
    by (cases "encryptAccount L (ensureConfigDir w) (applyPreset a)")
  with assms obtain enc where r: "r = Inr enc"
    by (cases r) (auto simp: addAccount_def Let_def)
  note e' = e [unfolded r]
  from addAccount_ok [OF assms] e' have
    f: "accounts_file w' = Readable (Accounts (upsert (acct_id a) enc (stored_accounts w)))"
    by auto
  from encryptAccount_secret [OF e'] have
    k2: "keeps_secret (ensureConfigDir w) w2"
    and s: "\<And>f. stored_secret L (ensureConfigDir w) (get_field f (auth a)) (get_field f (auth enc))"
    by simp_all
  have k0: "keeps_secret w (ensureConfigDir w)" by simp
  from k0 k2 have kw2: "keeps_secret w w2" by (rule keeps_secret_trans)
  from assms e' have "env_MCP_MASTER_KEY w' = env_MCP_MASTER_KEY w2" "key_file w' = key_file w2"
    by (auto simp: addAccount_def Let_def console_error_def)
  with kw2 have k: "keeps_secret w w'" by (simp add: keeps_secret_def)
  from s k0 have s': "stored_secret L w (get_field f (auth a)) (get_field f (auth enc))" for f
    by (blast intro: stored_secret_mono)
  from encryptAccount_result [OF e'] have "redact enc = redact (applyPreset a)" by simp
  with k f s' show ?thesis by blast
qed


subsection \<open>Reading back what was stored\<close>

lemma getLocalMasterKey_kept:
  assumes "key_present w" and "keeps_secret w w1"
  shows "getLocalMasterKey L w1 = (fst (getLocalMasterKey L w), w1)"
  using assms
  by (auto simp: getLocalMasterKey_def key_present_def keeps_secret_def split: sum.splits)

lemma key_present_kept: "key_present w \<Longrightarrow> keeps_secret w w1 \<Longrightarrow> key_present w1"
  by (auto simp: key_present_def keeps_secret_def)

lemma ciphertext_of_tagged:
  assumes "ciphertext_of L w p c"
  shows "isEncrypted c \<and> c \<noteq> []"
proof -
  from assms obtain x where "c = PREFIX_LOCAL @ x" unfolding ciphertext_of_def by blast
  then show ?thesis by (simp add: isEncrypted_tagged) (simp add: PREFIX_LOCAL_def)
qed

lemma decrypt_ciphertext_of:
  assumes "lib_correct L" and "key_present w" and "ciphertext_of L w p c"
    and "keeps_secret w w3"
  shows "fst (decrypt L w3 c) = Inr p"
proof -
  from assms(3) obtain w1 k iv where
    h: "keeps_secret w w1" "fst (getLocalMasterKey L w1) = Inr k"
      "c = PREFIX_LOCAL @ toBase64 L iv @ '':'' @ toBase64 L (snd (cipher L k iv p)) @ '':'' @
              fst (cipher L k iv p)"
    unfolding ciphertext_of_def by blast
  from getLocalMasterKey_kept [OF assms(2) h(1), of L] h(2)
  have "fst (getLocalMasterKey L w) = Inr k" by simp
  with getLocalMasterKey_kept [OF assms(2,4), of L]
  have k3: "fst (getLocalMasterKey L w3) = Inr k" by simp
  have "fst (decryptLocal L w3 c) = Inr p"
    unfolding h(3) using assms(1) k3 by (rule decryptLocal_of_encryption)
  with ciphertext_of_tagged [OF assms(3)] show ?thesis
    by (simp add: decrypt_def isEncrypted_def)
qed

lemma find_single: "filter P xs = [e] \<Longrightarrow> find P xs = Some e"
  by (induction xs) (auto split: if_splits)

lemma find_map_same:
  "(\<And>x. P (g x) = P x) \<Longrightarrow> find P (map g xs) = map_option g (find P xs)"
  by (induction xs) simp_all

lemma redact_after_read [simp]: "redact (account_after_read L w a) = redact a"
  by (simp add: redact_def redact_auth_def account_after_read_def)

lemma acct_id_after_read [simp]: "acct_id (account_after_read L w a) = acct_id a"
  by (simp add: account_after_read_def)

lemma getAccount_present_single:
  assumes "key_present w" and "filter (\<lambda>x. acct_id x = k) (stored_accounts w) = [e]"
  shows "fst (getAccount L w k) = Some (account_after_read L w e)"
proof -
  from getAccounts_present [OF assms(1), of L]
  have "fst (getAccounts L w) = map (account_after_read L w) (stored_accounts w)" by simp
  moreover have "find (\<lambda>a. acct_id a = k) (map (account_after_read L w) (stored_accounts w)) =
      map_option (account_after_read L w) (find (\<lambda>a. acct_id a = k) (stored_accounts w))"
    by (rule find_map_same) simp
  moreover from assms(2) have "find (\<lambda>a. acct_id a = k) (stored_accounts w) = Some e"
    by (rule find_single)
  ultimately show ?thesis
    by (cases "getAccounts L w") (simp add: getAccount_def)
qed

lemma read_back_stored_secret:
  assumes "lib_correct L" and "key_present w" and "keeps_secret w w3"
    and "stored_secret L w (Some p) y" and "\<not> isEncrypted p"
  shows "field_after_read L w3 y = Some p"
proof (cases "p = []")
  case True
  with assms(4) show ?thesis by (simp add: stored_secret_def field_after_read_def)
next
  case False
  with assms(4,5) obtain c where c: "y = Some c" "ciphertext_of L w p c"
    by (auto simp: stored_secret_def)
  from decrypt_ciphertext_of [OF assms(1,2) c(2) assms(3)] ciphertext_of_tagged [OF c(2)] c(1)
  show ?thesis by (simp add: field_after_read_def)
qed

text \<open>
  Claim C7. Let the master key be resolvable, let the identifiers of the stored records be
  distinct, and let \<open>a1\<close> and \<open>a2\<close> have the same identifier. Then both calls of
  \<open>addAccount\<close> return. The first writes the stored list with the record of that identifier
  replaced, in place, by the encrypted \<open>a1\<close>, or with the encrypted \<open>a1\<close> appended when no
  record has the identifier. After the second, exactly one record of the document has the
  identifier: it is \<open>a2\<close> (with its preset) outside the sensitive fields, and its password
  is the password of \<open>a2\<close> as given when that is absent, empty or tagged, and otherwise the
  tagged encoding of a nonce, the authentication tag and the ciphertext of the password
  of \<open>a2\<close> under a master key of this store (\<open>stored_secret\<close>). The records of every other
  identifier are those of the document before the two calls, and the identifiers stay
  distinct. When moreover the primitives are correct and a master secret was there
  before the calls, \<open>getAccount\<close> of the identifier afterwards returns that record with
  the password of \<open>a2\<close> in plaintext, for every password that does not begin with the tag.
\<close>

theorem upsert_replaces_or_appends:
  assumes "key_resolvable w"
    and "acct_id a2 = acct_id a1"
    and "distinct (map acct_id (stored_accounts w))"
  shows "\<exists>w1 w2 enc1 enc2 ds1 ds2.
     addAccount L w a1 = (Inr (), w1) \<and> addAccount L w1 a2 = (Inr (), w2) \<and>
     accounts_file w1 = Readable (Accounts ds1) \<and> accounts_file w2 = Readable (Accounts ds2) \<and>
     redact enc1 = redact (applyPreset a1) \<and>
     (acct_id a1 \<notin> acct_id ` set (stored_accounts w) \<longrightarrow> ds1 = stored_accounts w @ [enc1]) \<and>
     (\<forall>i<length (stored_accounts w). acct_id (stored_accounts w ! i) = acct_id a1 \<longrightarrow>
        ds1 = (stored_accounts w)[i := enc1]) \<and>
     filter (\<lambda>x. acct_id x = acct_id a1) ds2 = [enc2] \<and>
     redact enc2 = redact (applyPreset a2) \<and>
     stored_secret L w (password (auth a2)) (password (auth enc2)) \<and>
     (\<forall>j. j \<noteq> acct_id a1 \<longrightarrow>
        filter (\<lambda>x. acct_id x = j) ds2 = filter (\<lambda>x. acct_id x = j) (stored_accounts w)) \<and>
     distinct (map acct_id ds1) \<and> distinct (map acct_id ds2) \<and>
     (lib_correct L \<and> key_present w \<longrightarrow>
        (\<forall>p. password (auth a2) = Some p \<and> \<not> isEncrypted p \<longrightarrow>
           (\<exists>r. fst (getAccount L w2 (acct_id a1)) = Some r \<and>
              redact r = redact (applyPreset a2) \<and> password (auth r) = Some p)))"
proof -
  let ?k = "acct_id a1"
  let ?ds = "stored_accounts w"
  let ?up = "\<lambda>xs e. upsert ?k e xs"
  from addAccount_returns [OF assms(1)] obtain w1 where c1: "addAccount L w a1 = (Inr (), w1)"
    by blast
  from addAccount_ok [OF c1] assms(1) have k1: "key_resolvable w1" by blast
  from addAccount_secret [OF c1] obtain enc1 where
    ks1: "keeps_secret w w1"
    and f1: "accounts_file w1 = Readable (Accounts (?up ?ds enc1))"
    and r1: "redact enc1 = redact (applyPreset a1)"
    by blast
  from r1 have id1: "acct_id enc1 = ?k" using redact_acct_id [of enc1 "applyPreset a1"] by simp
  have s1: "stored_accounts w1 = ?up ?ds enc1" using f1 by (rule stored_accounts_Readable)
  from addAccount_returns [OF k1] obtain w2 where c2: "addAccount L w1 a2 = (Inr (), w2)"
    by blast
  from addAccount_secret [OF c2] obtain enc2 where
    ks2: "keeps_secret w1 w2"
    and f2': "accounts_file w2 =
        Readable (Accounts (upsert (acct_id a2) enc2 (stored_accounts w1)))"
    and r2: "redact enc2 = redact (applyPreset a2)"
    and p2all: "\<forall>f. stored_secret L w1 (get_field f (auth a2)) (get_field f (auth enc2))"
    by blast
  from f2' assms(2) s1
  have f2: "accounts_file w2 = Readable (Accounts (?up (?up ?ds enc1) enc2))" by simp
  from p2all
  have p2': "stored_secret L w1 (get_field K_password (auth a2)) (get_field K_password (auth enc2))"
    by (rule spec)
  from ks1 p2' have p2: "stored_secret L w (password (auth a2)) (password (auth enc2))"
    using stored_secret_mono [OF ks1] by simp
  from ks1 ks2 have ks: "keeps_secret w w2" by (rule keeps_secret_trans)
  from r2 have id2: "acct_id enc2 = ?k"
    using redact_acct_id [of enc2 "applyPreset a2"] assms(2) by simp
  have d1: "distinct (map acct_id (?up ?ds enc1))"
    using id1 assms(3) by (rule upsert_distinct)
  have d2: "distinct (map acct_id (?up (?up ?ds enc1) enc2))"
    using id2 d1 by (rule upsert_distinct)
  have same: "filter (\<lambda>x. acct_id x = ?k) (?up (?up ?ds enc1) enc2) = [enc2]"
    using id2 d1 by (rule upsert_filter_same)
  have other: "filter (\<lambda>x. acct_id x = j) (?up (?up ?ds enc1) enc2) =
               filter (\<lambda>x. acct_id x = j) ?ds" if "j \<noteq> ?k" for j
    using upsert_filter_other [OF id2 that] upsert_filter_other [OF id1 that] by simp
  have app: "?up ?ds enc1 = ?ds @ [enc1]" if "?k \<notin> acct_id ` set ?ds"
  proof -
    from that have "\<forall>x\<in>set ?ds. \<not> acct_id x = ?k" by (metis imageI)
    then show ?thesis by (simp add: findIndex_None upsert_def)
  qed
  have rep: "?up ?ds enc1 = ?ds[i := enc1]" if "i < length ?ds" "acct_id (?ds ! i) = ?k" for i
    using findIndex_distinct_id [OF assms(3) that] by (simp add: upsert_def)
  have readback: "\<exists>r. fst (getAccount L w2 ?k) = Some r \<and>
              redact r = redact (applyPreset a2) \<and> password (auth r) = Some p"
    if "lib_correct L \<and> key_present w" "password (auth a2) = Some p \<and> \<not> isEncrypted p" for p
  proof -
    from that(1) ks have kp2: "key_present w2" by (blast intro: key_present_kept)
    from f2 have "stored_accounts w2 = ?up (?up ?ds enc1) enc2"
      by (rule stored_accounts_Readable)
    with same have "filter (\<lambda>x. acct_id x = ?k) (stored_accounts w2) = [enc2]" by simp
    from getAccount_present_single [OF kp2 this, of L]
    have g: "fst (getAccount L w2 ?k) = Some (account_after_read L w2 enc2)" .
    from p2 that(2) have "stored_secret L w (Some p) (password (auth enc2))" by simp
    from read_back_stored_secret [OF _ _ ks this] that
    have "field_after_read L w2 (password (auth enc2)) = Some p" by blast
    then have "password (auth (account_after_read L w2 enc2)) = Some p"
      by (simp add: account_after_read_def)
    with g r2 show ?thesis by simp
  qed
  from c1 c2 f1 f2 r1 r2 p2 same other app rep d1 d2 readback show ?thesis
    by (intro exI [of _ w1] exI [of _ w2] exI [of _ enc1] exI [of _ enc2]
        exI [of _ "?up ?ds enc1"] exI [of _ "?up (?up ?ds enc1) enc2"]) simp
qed


theorem upsert_replaces_or_appends_witness:
  "\<exists>w1 w2 enc2 ds2 c r.
     addAccount toy_lib world0 account0 = (Inr (), w1) \<and>
     addAccount toy_lib w1 account0b = (Inr (), w2) \<and>
     accounts_file w2 = Readable (Accounts ds2) \<and>
     filter (\<lambda>x. acct_id x = ''a-b-com'') ds2 = [enc2] \<and>
     password (auth enc2) = Some c \<and> ciphertext_of toy_lib world0 ''Secret2'' c \<and>
     fst (getAccount toy_lib w2 ''a-b-com'') = Some r \<and> password (auth r) = Some ''Secret2''"
proof -
  have h: "key_resolvable world0" "acct_id account0b = acct_id account0"
    "distinct (map acct_id (stored_accounts world0))"
    by (simp_all add: key_resolvable_def world0_def env_value_def account0b_def account0_def
        stored_accounts_def)
  have p: "password (auth account0b) = Some ''Secret2''" "\<not> isEncrypted ''Secret2''"
    "acct_id account0 = ''a-b-com''"
    by (simp_all add: account0b_def account0_def isEncrypted_def startsWith_def PREFIX_LOCAL_def)
  have k: "lib_correct toy_lib \<and> key_present world0"
    by (simp add: toy_lib_correct key_present_def world0_def env_value_def)
  from upsert_replaces_or_appends [OF h, of toy_lib] obtain w1 w2 enc2 ds2 where
    r: "addAccount toy_lib world0 account0 = (Inr (), w1)"
      "addAccount toy_lib w1 account0b = (Inr (), w2)"
      "accounts_file w2 = Readable (Accounts ds2)"
      "filter (\<lambda>x. acct_id x = acct_id account0) ds2 = [enc2]"
      "stored_secret toy_lib world0 (password (auth account0b)) (password (auth enc2))"
    and b: "lib_correct toy_lib \<and> key_present world0 \<longrightarrow>
        (\<forall>p. password (auth account0b) = Some p \<and> \<not> isEncrypted p \<longrightarrow>
           (\<exists>r. fst (getAccount toy_lib w2 (acct_id account0)) = Some r \<and>
              redact r = redact (applyPreset account0b) \<and> password (auth r) = Some p))"
    by blast
  from r(5) p obtain c where c: "password (auth enc2) = Some c"
    "ciphertext_of toy_lib world0 ''Secret2'' c"
    by (auto simp: stored_secret_def)
  from b k p obtain rr where "fst (getAccount toy_lib w2 (acct_id account0)) = Some rr"
    "password (auth rr) = Some ''Secret2''"
    by blast
  with r c p(3) show ?thesis by auto
qed

subsection \<open>Reads in every world\<close>


















end
